theory Spec2Isabelle
  imports Complex_Main "HOL-Library.AList" "HOL-Library.Char_ord" "HOL-Library.List_Lexorder"
    "HOL-Library.Log_Nat"
begin

section \<open>Data model (shared/schema.ts)\<close>

text \<open>
  The rows of the tables \<open>students\<close>, \<open>contributions\<close>, \<open>expenses\<close>, \<open>budget_items\<close> and
  \<open>users\<close>. Integer columns are \<^typ>\<open>int\<close>; a nullable column, and a property that the in-memory
  store may leave \<open>undefined\<close>, is an \<open>option\<close> (\<open>None\<close> stands for \<open>null\<close>/\<open>undefined\<close>).
  A calendar date is modelled by its day number, a timestamp by its milliseconds, so that
  \<open>ORDER BY date DESC\<close> is the order of the integers. The enumerations
  \<open>paid_status\<close> and \<open>attending_status\<close> are datatypes; section, gender and category
  stay strings, as the summaries compare them with string literals.
\<close>

datatype paid_status = paid | pending | not_paid | not_applicable

datatype attending_status = attending | not_attending | not_confirmed

record student =
  s_id :: int
  s_firstName :: string
  s_lastName :: string
  s_section :: string
  s_gender :: string
  s_mobile :: string
  s_email :: "string option"
  s_dob :: "int option"
  s_city :: "string option"
  s_work :: "string option"
  s_attendingStatus :: "attending_status option"
  s_paidStatus :: "paid_status option"
  s_contributionAmount :: "int option"
  s_createdAt :: "int option"

record contribution =
  c_id :: int
  c_studentId :: "int option"
  c_amount :: int
  c_date :: int
  c_recordedBy :: "int option"
  c_createdAt :: "int option"

record expense =
  e_id :: int
  e_title :: string
  e_category :: string
  e_description :: string
  e_amount :: int
  e_date :: int
  e_receiptImage :: "string option"
  e_createdBy :: "int option"
  e_createdAt :: "int option"

record budgetItem =
  b_id :: int
  b_name :: string
  b_category :: string
  b_description :: string
  b_estimatedAmount :: int
  b_createdAt :: "int option"

record user =
  u_id :: int
  u_username :: string
  u_password :: string
  u_role :: string
  u_section :: "string option"
  u_studentId :: "int option"


record insertContribution =
  ic_studentId :: "int option"
  ic_amount :: int
  ic_date :: int
  ic_recordedBy :: "int option"

text \<open>
  \<open>Partial<InsertStudent>\<close> and \<open>Partial<InsertContribution>\<close>: every key is optional.
\<close>

record partialStudent =
  ps_firstName :: "string option"
  ps_lastName :: "string option"
  ps_section :: "string option"
  ps_gender :: "string option"
  ps_mobile :: "string option"
  ps_email :: "string option option"
  ps_dob :: "int option option"
  ps_city :: "string option option"
  ps_work :: "string option option"
  ps_attendingStatus :: "attending_status option"
  ps_paidStatus :: "paid_status option"
  ps_contributionAmount :: "int option option"

record partialContribution =
  pc_studentId :: "int option option"
  pc_amount :: "int option"
  pc_date :: "int option"
  pc_recordedBy :: "int option option"

text \<open>The options object of \<open>getContributions\<close>; a call without options has every key absent.\<close>

record contributionOptions =
  o_studentId :: "int option"
  o_limit :: "int option"
  o_offset :: "int option"

section \<open>JavaScript helpers\<close>

text \<open>
  Object spread \<open>{ ...row, ...data }\<close>: a key present in \<open>data\<close> replaces the property of
  \<open>row\<close>, an absent key keeps it.
\<close>

definition overwrite :: "'a \<Rightarrow> 'a option \<Rightarrow> 'a" where
  "overwrite old new = (case new of None \<Rightarrow> old | Some v \<Rightarrow> v)"

definition spreadStudent :: "student \<Rightarrow> partialStudent \<Rightarrow> student" where
  "spreadStudent st d =
     st\<lparr> s_firstName := overwrite (s_firstName st) (ps_firstName d),
         s_lastName := overwrite (s_lastName st) (ps_lastName d),
         s_section := overwrite (s_section st) (ps_section d),
         s_gender := overwrite (s_gender st) (ps_gender d),
         s_mobile := overwrite (s_mobile st) (ps_mobile d),
         s_email := overwrite (s_email st) (ps_email d),
         s_dob := overwrite (s_dob st) (ps_dob d),
         s_city := overwrite (s_city st) (ps_city d),
         s_work := overwrite (s_work st) (ps_work d),
         s_attendingStatus := overwrite (s_attendingStatus st) (map_option Some (ps_attendingStatus d)),
         s_paidStatus := overwrite (s_paidStatus st) (map_option Some (ps_paidStatus d)),
         s_contributionAmount := overwrite (s_contributionAmount st) (ps_contributionAmount d) \<rparr>"

definition spreadContribution :: "contribution \<Rightarrow> partialContribution \<Rightarrow> contribution" where
  "spreadContribution c d =
     c\<lparr> c_studentId := overwrite (c_studentId c) (pc_studentId d),
        c_amount := overwrite (c_amount c) (pc_amount d),
        c_date := overwrite (c_date c) (pc_date d),
        c_recordedBy := overwrite (c_recordedBy c) (pc_recordedBy d) \<rparr>"

text \<open>The empty object \<open>{}\<close> of each partial type.\<close>

definition noStudentData :: partialStudent where
  "noStudentData =
     \<lparr> ps_firstName = None, ps_lastName = None, ps_section = None, ps_gender = None,
       ps_mobile = None, ps_email = None, ps_dob = None, ps_city = None, ps_work = None,
       ps_attendingStatus = None, ps_paidStatus = None, ps_contributionAmount = None \<rparr>"

definition noContributionData :: partialContribution where
  "noContributionData =
     \<lparr> pc_studentId = None, pc_amount = None, pc_date = None, pc_recordedBy = None \<rparr>"


text \<open>\<open>x || 0\<close> on a nullable number: \<open>null\<close>, \<open>undefined\<close> and \<open>0\<close> all give \<open>0\<close>.\<close>

definition orZero :: "int option \<Rightarrow> int" where
  "orZero x = (case x of None \<Rightarrow> 0 | Some v \<Rightarrow> v)"

text \<open>
  \<open>Array.prototype.slice(start, end)\<close> on integer arguments: a negative index counts
  from the end, and both indices are clamped to the array.
\<close>

definition sliceIndex :: "nat \<Rightarrow> int \<Rightarrow> nat" where
  "sliceIndex len i = (if i < 0 then nat (max (int len + i) 0) else min (nat i) len)"

definition slice :: "'a list \<Rightarrow> int \<Rightarrow> int \<Rightarrow> 'a list" where
  "slice xs start end =
     (let k = sliceIndex (length xs) start; final = sliceIndex (length xs) end
      in take (final - k) (drop k xs))"

text \<open>
  A JavaScript \<open>Map<number, V>\<close> is an association list in insertion order:
  \<open>get\<close> is \<^const>\<open>map_of\<close>, \<open>set\<close> replaces the value of a present key in place and
  appends an absent one, \<open>delete\<close> removes the key, \<open>values()\<close> lists the values in
  insertion order.
\<close>

abbreviation Map_get :: "(int \<times> 'v) list \<Rightarrow> int \<Rightarrow> 'v option" where
  "Map_get m k \<equiv> map_of m k"

abbreviation Map_set :: "(int \<times> 'v) list \<Rightarrow> int \<Rightarrow> 'v \<Rightarrow> (int \<times> 'v) list" where
  "Map_set m k v \<equiv> AList.update k v m"

abbreviation Map_delete :: "(int \<times> 'v) list \<Rightarrow> int \<Rightarrow> (int \<times> 'v) list" where
  "Map_delete m k \<equiv> AList.delete k m"

abbreviation Map_values :: "(int \<times> 'v) list \<Rightarrow> 'v list" where
  "Map_values m \<equiv> map snd m"

section \<open>The in-memory store (class MemStorage)\<close>

record memStorage =
  studentMap :: "(int \<times> student) list"
  budgetItemMap :: "(int \<times> budgetItem) list"
  expenseMap :: "(int \<times> expense) list"
  contributionMap :: "(int \<times> contribution) list"
  currentStudentId :: int
  currentBudgetItemId :: int
  currentExpenseId :: int
  currentContributionId :: int

subsection \<open>Students\<close>

definition getStudent :: "memStorage \<Rightarrow> int option \<Rightarrow> student option" where
  "getStudent s k = (case k of None \<Rightarrow> None | Some i \<Rightarrow> Map_get (studentMap s) i)"



definition updateStudent :: "memStorage \<Rightarrow> int \<Rightarrow> partialStudent \<Rightarrow> memStorage \<times> student option" where
  "updateStudent s k d =
     (case Map_get (studentMap s) k of
        None \<Rightarrow> (s, None)
      | Some st \<Rightarrow>
          (let updatedStudent = spreadStudent st d
           in (s\<lparr> studentMap := Map_set (studentMap s) k updatedStudent \<rparr>, Some updatedStudent)))"

definition deleteStudent :: "memStorage \<Rightarrow> int \<Rightarrow> memStorage \<times> bool" where
  "deleteStudent s k =
     (s\<lparr> studentMap := Map_delete (studentMap s) k \<rparr>, k \<in> fst ` set (studentMap s))"

subsection \<open>Contributions\<close>

definition getContributions :: "memStorage \<Rightarrow> contributionOptions \<Rightarrow> contribution list" where
  "getContributions s opts =
     (let contributions = Map_values (contributionMap s);
          contributions =
            (if o_studentId opts \<noteq> None \<and> o_studentId opts \<noteq> Some 0
             then filter (\<lambda>c. c_studentId c = o_studentId opts) contributions
             else contributions)
      in case (o_limit opts, o_offset opts) of
           (Some limit, Some offset) \<Rightarrow> slice contributions offset (offset + limit)
         | _ \<Rightarrow> contributions)"

text \<open>
  The record \<open>{ ...insertContribution, id, createdAt: now }\<close> that both stores build for a
  new contribution; \<open>now\<close> is the value of \<open>new Date()\<close> at the call.
\<close>

definition newRow :: "int \<Rightarrow> int \<Rightarrow> insertContribution \<Rightarrow> contribution" where
  "newRow now i d =
     \<lparr> c_id = i, c_studentId = ic_studentId d, c_amount = ic_amount d, c_date = ic_date d,
       c_recordedBy = ic_recordedBy d, c_createdAt = Some now \<rparr>"

definition createContribution ::
    "int \<Rightarrow> memStorage \<Rightarrow> insertContribution \<Rightarrow> memStorage \<times> contribution" where
  "createContribution now s d =
     (let i = currentContributionId s;
          contribution = newRow now i d;
          s1 = s\<lparr> currentContributionId := i + 1,
                  contributionMap := Map_set (contributionMap s) i contribution \<rparr>
      in case getStudent s1 (ic_studentId d) of
           None \<Rightarrow> (s1, contribution)
         | Some st \<Rightarrow>
             (let existingContributions =
                    getContributions s1 \<lparr> o_studentId = Some (s_id st), o_limit = None, o_offset = None \<rparr>;
                  currentAmount = orZero (s_contributionAmount st);
                  updateData = noStudentData
                    \<lparr> ps_contributionAmount := Some (Some (currentAmount + ic_amount d)) \<rparr>;
                  updateData =
                    (if length existingContributions = 1 \<and> s_paidStatus st \<noteq> Some paid
                     then updateData\<lparr> ps_paidStatus := Some paid \<rparr> else updateData)
              in (fst (updateStudent s1 (s_id st) updateData), contribution)))"

definition updateContribution ::
    "memStorage \<Rightarrow> int \<Rightarrow> partialContribution \<Rightarrow> memStorage \<times> contribution option" where
  "updateContribution s k d =
     (case Map_get (contributionMap s) k of
        None \<Rightarrow> (s, None)
      | Some contribution \<Rightarrow>
          (let s1 =
                 (if pc_amount d \<noteq> None \<and> pc_amount d \<noteq> Some (c_amount contribution)
                  then (case getStudent s (c_studentId contribution) of
                          None \<Rightarrow> s
                        | Some st \<Rightarrow>
                            (let amountDiff = the (pc_amount d) - c_amount contribution;
                                 currentAmount = orZero (s_contributionAmount st)
                             in fst (updateStudent s (s_id st)
                                  (noStudentData
                                     \<lparr> ps_contributionAmount := Some (Some (currentAmount + amountDiff)) \<rparr>))))
                  else s);
               updatedContribution = spreadContribution contribution d
           in (s1\<lparr> contributionMap := Map_set (contributionMap s1) k updatedContribution \<rparr>,
               Some updatedContribution)))"

definition deleteContribution :: "memStorage \<Rightarrow> int \<Rightarrow> memStorage \<times> bool" where
  "deleteContribution s k =
     (case Map_get (contributionMap s) k of
        None \<Rightarrow> (s, False)
      | Some contribution \<Rightarrow>
          (let s1 =
                 (case getStudent s (c_studentId contribution) of
                    None \<Rightarrow> s
                  | Some st \<Rightarrow>
                      (let currentAmount = orZero (s_contributionAmount st)
                       in fst (updateStudent s (s_id st)
                            (noStudentData
                               \<lparr> ps_contributionAmount :=
                                   Some (Some (max 0 (currentAmount - c_amount contribution))) \<rparr>))))
           in (s1\<lparr> contributionMap := Map_delete (contributionMap s1) k \<rparr>, True)))"

subsection \<open>Summaries\<close>

text \<open>
  A JavaScript number is an IEEE 754 binary64 value. A finite number is modelled by the
  rational it denotes, and an arithmetic operation by its exact result rounded to the
  nearest binary64 value, a tie going to the even significand. For \<open>x > 0\<close>,
  \<open>floorLog2 x\<close> is the binary exponent \<open>e\<close> with \<open>2 ^ e \<le> x < 2 ^ (e + 1)\<close>; the binary64
  values around \<open>x\<close> are the integer multiples of \<open>2 ^ (e - 52)\<close>, with \<open>-1022\<close> in the
  place of a smaller \<open>e\<close> (the subnormal numbers). \<open>Infinity\<close> and \<open>NaN\<close> are outside the
  model: the summaries divide by constants and by guarded totals only, and their results
  stay far below \<open>2 ^ 1024\<close>.
\<close>

definition roundToEven :: "rat \<Rightarrow> int" where
  "roundToEven x =
     (let n = \<lfloor>x\<rfloor>
      in if x - of_int n < 1 / 2 \<or> (x - of_int n = 1 / 2 \<and> even n) then n else n + 1)"

definition floorLog2 :: "rat \<Rightarrow> int" where
  "floorLog2 x =
     (case quotient_of x of
        (p, q) \<Rightarrow> (let e = bitlen p - bitlen q in if 2 powi e \<le> x then e else e - 1))"

definition toDouble :: "rat \<Rightarrow> rat" where
  "toDouble x =
     (if x = 0 then 0
      else (let ulp = 2 powi (max (floorLog2 \<bar>x\<bar>) (- 1022) - 52)
            in of_int (roundToEven (x / ulp)) * ulp))"

text \<open>
  The operators \<open>/\<close> and \<open>*\<close> on numbers, and the conversion \<open>ToNumber\<close> of an integer that
  arrives as decimal text, as the sums of the durable store do (the driver hands a \<open>bigint\<close>
  over as a string, which \<open>/\<close> and \<open>>\<close> convert). The integers of the in-memory store are
  numbers already; the model takes their values, which is exact as long as they and their
  sums are safe integers (below \<open>2 ^ 53\<close> in magnitude).
\<close>

definition ToNumber :: "int \<Rightarrow> rat" where
  "ToNumber n = toDouble (of_int n)"

definition fdiv :: "rat \<Rightarrow> rat \<Rightarrow> rat" where
  "fdiv x y = toDouble (x / y)"

definition fmul :: "rat \<Rightarrow> rat \<Rightarrow> rat" where
  "fmul x y = toDouble (x * y)"

text \<open>
  \<open>Math.round\<close>, \<open>Math.ceil\<close> and \<open>Math.floor\<close> take a number to an integer exactly;
  \<open>Math.round\<close> rounds a half towards \<open>+\<infinity>\<close>.
\<close>

definition Math_round :: "rat \<Rightarrow> int" where
  "Math_round x = \<lfloor>x + 1 / 2\<rfloor>"

definition Math_ceil :: "rat \<Rightarrow> int" where
  "Math_ceil x = \<lceil>x\<rceil>"

definition Math_floor :: "rat \<Rightarrow> int" where
  "Math_floor x = \<lfloor>x\<rfloor>"

record sectionStat =
  ss_section :: string
  ss_totalStudents :: nat
  ss_attendingCount :: nat
  ss_paidCount :: nat
  ss_pendingCount :: nat
  ss_notConfirmedCount :: nat

record dashboardSummary =
  ds_totalStudents :: nat
  ds_attendingCount :: nat
  ds_paidCount :: nat
  ds_totalContributions :: int
  ds_totalExpenses :: int
  ds_sectionStats :: "sectionStat list"
  ds_budgetUtilization :: int
  ds_daysRemaining :: int
  ds_progressPercentage :: int

record categoryEntry =
  cb_category :: string
  cb_estimatedAmount :: int
  cb_actualAmount :: int

record budgetSummary =
  bs_totalBudget :: int
  bs_totalExpenses :: int
  bs_totalContributions :: int
  bs_balance :: int
  bs_categoryBreakdown :: "categoryEntry list"

text \<open>The literal lists of the two summaries.\<close>

definition sections :: "string list" where
  "sections = [''A'', ''B'', ''C'', ''D'']"

definition categories :: "string list" where
  "categories = [''venue'', ''food'', ''entertainment'', ''decoration'', ''transportation'',
     ''gifts'', ''technology'', ''marketing'', ''miscellaneous'']"

definition sectionStatOf :: "student list \<Rightarrow> string \<Rightarrow> sectionStat" where
  "sectionStatOf allStudents section =
     (let sectionStudents = filter (\<lambda>s. s_section s = section) allStudents
      in \<lparr> ss_section = section,
           ss_totalStudents = length sectionStudents,
           ss_attendingCount = length (filter (\<lambda>s. s_attendingStatus s = Some attending) sectionStudents),
           ss_paidCount = length (filter (\<lambda>s. s_paidStatus s = Some paid) sectionStudents),
           ss_pendingCount = length (filter (\<lambda>s. s_paidStatus s = Some pending) sectionStudents),
           ss_notConfirmedCount =
             length (filter (\<lambda>s. s_attendingStatus s = Some not_confirmed) sectionStudents) \<rparr>)"

text \<open>\<open>getStudents()\<close>, \<open>getExpenses()\<close> and \<open>getBudgetItems()\<close> as the summaries call them, without options.\<close>

definition getStudents :: "memStorage \<Rightarrow> student list" where
  "getStudents s = Map_values (studentMap s)"

definition getExpenses :: "memStorage \<Rightarrow> expense list" where
  "getExpenses s = Map_values (expenseMap s)"

definition getBudgetItems :: "memStorage \<Rightarrow> budgetItem list" where
  "getBudgetItems s = Map_values (budgetItemMap s)"

text \<open>
  \<open>reunionDate\<close> and \<open>today\<close> are the millisecond values of \<open>new Date(2025, 3, 6)\<close> (which
  depends on the time zone of the process) and of \<open>new Date()\<close>.
\<close>

definition getDashboardSummary :: "int \<Rightarrow> int \<Rightarrow> memStorage \<Rightarrow> dashboardSummary" where
  "getDashboardSummary reunionDate today s =
     (let allStudents = getStudents s;
          allExpenses = getExpenses s;
          sectionStats = map (sectionStatOf allStudents) sections;
          totalContributions = foldl (\<lambda>sum student. sum + orZero (s_contributionAmount student)) 0 allStudents;
          totalExpenses = foldl (\<lambda>sum expense. sum + e_amount expense) 0 allExpenses;
          timeDiff = reunionDate - today;
          daysRemaining = Math_ceil (fdiv (of_int timeDiff) (1000 * 3600 * 24));
          planningDays = 365;
          daysElapsed = planningDays - daysRemaining;
          progressPercentage =
            min 100 (max 0 (Math_round (fmul (fdiv (of_int daysElapsed) (of_int planningDays)) 100)))
      in \<lparr> ds_totalStudents = length allStudents,
           ds_attendingCount = length (filter (\<lambda>s. s_attendingStatus s = Some attending) allStudents),
           ds_paidCount = length (filter (\<lambda>s. s_paidStatus s = Some paid) allStudents),
           ds_totalContributions = totalContributions,
           ds_totalExpenses = totalExpenses,
           ds_sectionStats = sectionStats,
           ds_budgetUtilization =
             Math_round (fmul (fdiv (of_int totalExpenses)
                (of_int (if totalContributions = 0 then 1 else totalContributions))) 100),
           ds_daysRemaining = daysRemaining,
           ds_progressPercentage = progressPercentage \<rparr>)"

definition getBudgetSummary :: "memStorage \<Rightarrow> budgetSummary" where
  "getBudgetSummary s =
     (let allBudgetItems = getBudgetItems s;
          allExpenses = getExpenses s;
          allStudents = getStudents s;
          totalContributions = foldl (\<lambda>sum student. sum + orZero (s_contributionAmount student)) 0 allStudents;
          totalBudget = foldl (\<lambda>sum item. sum + b_estimatedAmount item) 0 allBudgetItems;
          totalExpenses = foldl (\<lambda>sum expense. sum + e_amount expense) 0 allExpenses;
          categoryBreakdown = map (\<lambda>category.
              (let estimatedAmount =
                     foldl (\<lambda>sum item. sum + b_estimatedAmount item) 0
                       (filter (\<lambda>item. b_category item = category) allBudgetItems);
                   actualAmount =
                     foldl (\<lambda>sum expense. sum + e_amount expense) 0
                       (filter (\<lambda>expense. e_category expense = category) allExpenses)
               in \<lparr> cb_category = category, cb_estimatedAmount = estimatedAmount,
                    cb_actualAmount = actualAmount \<rparr>)) categories
      in \<lparr> bs_totalBudget = totalBudget, bs_totalExpenses = totalExpenses,
           bs_totalContributions = totalContributions,
           bs_balance = totalContributions - totalExpenses,
           bs_categoryBreakdown = categoryBreakdown \<rparr>)"

subsection \<open>Bulk import\<close>



section \<open>The durable store (class DatabaseStorage)\<close>

text \<open>
  The relational store behind drizzle: a table is the list of its rows, a \<open>serial\<close> column
  draws from a sequence. A query is modelled by its relational meaning:
  \<open>select ... where\<close> is \<^const>\<open>filter\<close>, \<open>update ... set ... where\<close> rewrites the
  matching rows (a key absent from the \<open>set\<close> object keeps the column),
  \<open>delete ... where\<close> removes them, \<open>insert ... returning\<close> appends the row with the next
  sequence value and the column defaults, \<open>ORDER BY\<close> is a stable sort (rows with equal
  keys keep table order), and \<open>SUM\<close> adds the column.

  A statement that the engine rejects makes the method throw; the model returns a
  \<open>storeFault\<close> together with the store as the statements before it have left it, since the
  methods open no transaction. \<open>QueryRejected\<close> is a statement rejected for its own
  arguments (a negative \<open>LIMIT\<close> or \<open>OFFSET\<close>, an \<open>UPDATE\<close> with nothing to set).
  \<open>ForeignKeyViolation\<close> is the constraint of \<open>contributions.student_id\<close> and
  \<open>users.student_id\<close>, which reference \<open>students.id\<close> without an \<open>ON DELETE\<close> action: an
  insert or update of \<open>contributions\<close> whose \<open>student_id\<close> names no row of \<open>students\<close> is
  rejected, and so is the delete of a row of \<open>students\<close> that a row of \<open>contributions\<close> or of
  \<open>users\<close> references. A rejected insert has drawn its id from the sequence all the same.

  The other constraints of the schema are not checked by the model, whose definitions
  describe the runs in which they hold: \<open>recorded_by\<close> references \<open>users.id\<close> (the route
  that creates a contribution sets it to the id of the authenticated user); the integer
  columns are 32 bits wide; the enumerated columns hold one of their values; \<open>mobile\<close> is
  unique (the import creates a row only for a number that no row has). Since \<open>id\<close> and
  \<open>mobile\<close> are unique, the row that a \<open>where ... limit 1\<close> on either returns is
  determined; \<^const>\<open>find\<close> takes the first such row. The property \<open>fullName\<close> that the
  student methods add to a returned row is not stored and is left out.
\<close>

datatype storeFault = QueryRejected | ForeignKeyViolation

record dbStorage =
  students :: "student list"
  budgetItems :: "budgetItem list"
  expenses :: "expense list"
  contributions :: "contribution list"
  users :: "user list"
  students_id_seq :: int
  contributions_id_seq :: int

subsection \<open>Students\<close>

definition db_getStudent :: "dbStorage \<Rightarrow> int option \<Rightarrow> student option" where
  "db_getStudent d k = (case k of None \<Rightarrow> None | Some i \<Rightarrow> find (\<lambda>r. s_id r = i) (students d))"


definition db_getStudents :: "dbStorage \<Rightarrow> student list" where
  "db_getStudents d = sort_key s_firstName (students d)"


definition db_updateStudent :: "dbStorage \<Rightarrow> int \<Rightarrow> partialStudent \<Rightarrow> dbStorage \<times> student option" where
  "db_updateStudent d k v =
     (let rows = map (\<lambda>r. if s_id r = k then spreadStudent r v else r) (students d)
      in (d\<lparr> students := rows \<rparr>, find (\<lambda>r. s_id r = k) rows))"

text \<open>
  The two checks of the foreign key: \<open>dangling d k\<close> when \<open>k\<close> is an id that no row of
  \<open>students\<close> has, \<open>referenced d k\<close> when a row of \<open>students\<close> has the id \<open>k\<close> and a row of
  \<open>contributions\<close> or of \<open>users\<close> names it.
\<close>

definition dangling :: "dbStorage \<Rightarrow> int option \<Rightarrow> bool" where
  "dangling d k \<longleftrightarrow> k \<noteq> None \<and> db_getStudent d k = None"

definition referenced :: "dbStorage \<Rightarrow> int \<Rightarrow> bool" where
  "referenced d k \<longleftrightarrow>
     k \<in> s_id ` set (students d) \<and>
     (Some k \<in> c_studentId ` set (contributions d) \<or> Some k \<in> u_studentId ` set (users d))"

text \<open>\<open>!!result\<close> is \<open>true\<close> for every result object, also when no row had the id.\<close>

definition db_deleteStudent :: "dbStorage \<Rightarrow> int \<Rightarrow> dbStorage \<times> (storeFault + bool)" where
  "db_deleteStudent d k =
     (if referenced d k then (d, Inl ForeignKeyViolation)
      else (d\<lparr> students := filter (\<lambda>r. s_id r \<noteq> k) (students d) \<rparr>, Inr True))"

subsection \<open>Contributions\<close>

definition db_getContribution :: "dbStorage \<Rightarrow> int \<Rightarrow> contribution option" where
  "db_getContribution d k = find (\<lambda>r. c_id r = k) (contributions d)"

definition db_getContributions :: "dbStorage \<Rightarrow> contributionOptions \<Rightarrow> storeFault + contribution list" where
  "db_getContributions d opts =
     (let query = contributions d;
          query =
            (if o_studentId opts \<noteq> None \<and> o_studentId opts \<noteq> Some 0
             then filter (\<lambda>c. c_studentId c = o_studentId opts) query
             else query);
          query = sort_key (\<lambda>c. - c_date c) query
      in case o_limit opts of
           None \<Rightarrow> Inr query
         | Some limit \<Rightarrow>
             if limit = 0 then Inr query
             else if limit < 0 then Inl QueryRejected
             else (case o_offset opts of
                     None \<Rightarrow> Inr (take (nat limit) query)
                   | Some offset \<Rightarrow>
                       if offset < 0 then Inl QueryRejected
                       else Inr (take (nat limit) (drop (nat offset) query))))"

definition db_createContribution ::
    "int \<Rightarrow> dbStorage \<Rightarrow> insertContribution \<Rightarrow> dbStorage \<times> (storeFault + contribution)" where
  "db_createContribution now d v =
     (let i = contributions_id_seq d;
          row = newRow now i v
      in if dangling d (ic_studentId v)
         then (d\<lparr> contributions_id_seq := i + 1 \<rparr>, Inl ForeignKeyViolation)
         else
           (let d1 = d\<lparr> contributions_id_seq := i + 1, contributions := contributions d @ [row] \<rparr>
            in case db_getStudent d1 (ic_studentId v) of
                 None \<Rightarrow> (d1, Inr row)
               | Some st \<Rightarrow>
                   (let existingContributions =
                          (case db_getContributions d1
                                  \<lparr> o_studentId = Some (s_id st), o_limit = None, o_offset = None \<rparr> of
                             Inr rows \<Rightarrow> rows | Inl _ \<Rightarrow> []);
                        currentAmount = orZero (s_contributionAmount st);
                        updateData = noStudentData
                          \<lparr> ps_contributionAmount := Some (Some (currentAmount + ic_amount v)) \<rparr>;
                        updateData =
                          (if length existingContributions = 1 \<and> s_paidStatus st \<noteq> Some paid
                           then updateData\<lparr> ps_paidStatus := Some paid \<rparr> else updateData)
                    in (fst (db_updateStudent d1 (s_id st) updateData), Inr row))))"

definition db_updateContribution ::
    "dbStorage \<Rightarrow> int \<Rightarrow> partialContribution \<Rightarrow> dbStorage \<times> (storeFault + contribution option)" where
  "db_updateContribution d k v =
     (case db_getContribution d k of
        None \<Rightarrow> (d, Inr None)
      | Some contribution \<Rightarrow>
          (let d1 =
                 (if pc_amount v \<noteq> None \<and> pc_amount v \<noteq> Some (c_amount contribution)
                  then (case db_getStudent d (c_studentId contribution) of
                          None \<Rightarrow> d
                        | Some st \<Rightarrow>
                            (let amountDiff = the (pc_amount v) - c_amount contribution;
                                 currentAmount = orZero (s_contributionAmount st)
                             in fst (db_updateStudent d (s_id st)
                                  (noStudentData
                                     \<lparr> ps_contributionAmount := Some (Some (currentAmount + amountDiff)) \<rparr>))))
                  else d)
           in if v = noContributionData then (d1, Inl QueryRejected)
              else if (case pc_studentId v of
                         None \<Rightarrow> False
                       | Some a \<Rightarrow> a \<noteq> c_studentId contribution \<and> dangling d1 a)
              then (d1, Inl ForeignKeyViolation)
              else
                (let rows = map (\<lambda>r. if c_id r = k then spreadContribution r v else r) (contributions d1)
                 in (d1\<lparr> contributions := rows \<rparr>, Inr (find (\<lambda>r. c_id r = k) rows)))))"

definition db_deleteContribution :: "dbStorage \<Rightarrow> int \<Rightarrow> dbStorage \<times> bool" where
  "db_deleteContribution d k =
     (case db_getContribution d k of
        None \<Rightarrow> (d, False)
      | Some contribution \<Rightarrow>
          (let d1 =
                 (case db_getStudent d (c_studentId contribution) of
                    None \<Rightarrow> d
                  | Some st \<Rightarrow>
                      if s_contributionAmount st \<noteq> None \<and> s_contributionAmount st \<noteq> Some 0
                      then fst (db_updateStudent d (s_id st)
                             (noStudentData
                                \<lparr> ps_contributionAmount :=
                                    Some (Some (max 0 (the (s_contributionAmount st) - c_amount contribution))) \<rparr>))
                      else d)
           in (d1\<lparr> contributions := filter (\<lambda>r. c_id r \<noteq> k) (contributions d1) \<rparr>, True)))"

subsection \<open>Summaries\<close>

record dbDashboardSummary = dashboardSummary +
  ds_notAttendingCount :: nat
  ds_notConfirmedCount :: nat
  ds_pendingCount :: nat
  ds_notPaidCount :: nat

definition db_getExpenses :: "dbStorage \<Rightarrow> expense list" where
  "db_getExpenses d = sort_key (\<lambda>e. - e_date e) (expenses d)"

definition db_getBudgetItems :: "dbStorage \<Rightarrow> budgetItem list" where
  "db_getBudgetItems d = budgetItems d"

definition db_getDashboardSummary :: "int \<Rightarrow> int \<Rightarrow> dbStorage \<Rightarrow> dbDashboardSummary" where
  "db_getDashboardSummary reunionDate today d =
     (let allStudents = db_getStudents d;
          totalContributions = sum_list (map c_amount (contributions d));
          totalExpenses = sum_list (map e_amount (expenses d));
          totalBudget = sum_list (map b_estimatedAmount (budgetItems d));
          budgetUtilization =
            (if totalBudget > 0
             then Math_round (fmul (fdiv (ToNumber totalExpenses) (ToNumber totalBudget)) 100) else 0);
          sectionStats = map (sectionStatOf allStudents) sections;
          daysRemaining = max 0 (Math_floor (fdiv (of_int (reunionDate - today)) (1000 * 60 * 60 * 24)));
          totalPlanningDays = 365;
          daysElapsed = totalPlanningDays - daysRemaining;
          progressPercentage =
            min 100 (max 0 (Math_round (fmul (fdiv (of_int daysElapsed) (of_int totalPlanningDays)) 100)))
      in \<lparr> ds_totalStudents = length allStudents,
           ds_attendingCount = length (filter (\<lambda>s. s_attendingStatus s = Some attending) allStudents),
           ds_paidCount = length (filter (\<lambda>s. s_paidStatus s = Some paid) allStudents),
           ds_totalContributions = totalContributions,
           ds_totalExpenses = totalExpenses,
           ds_sectionStats = sectionStats,
           ds_budgetUtilization = budgetUtilization,
           ds_daysRemaining = daysRemaining,
           ds_progressPercentage = progressPercentage,
           ds_notAttendingCount =
             length (filter (\<lambda>s. s_attendingStatus s = Some not_attending) allStudents),
           ds_notConfirmedCount =
             length (filter (\<lambda>s. s_attendingStatus s = Some not_confirmed) allStudents),
           ds_pendingCount = length (filter (\<lambda>s. s_paidStatus s = Some pending) allStudents),
           ds_notPaidCount = length (filter (\<lambda>s. s_paidStatus s = Some not_paid) allStudents) \<rparr>)"

text \<open>
  The reducer of \<open>expensesByCategory\<close>: a \<open>Record<string, number>\<close> is a map from
  category names; a missing or zero entry is first set to \<open>0\<close>, then the amount is added.
\<close>

definition addExpense :: "(string \<rightharpoonup> int) \<Rightarrow> expense \<Rightarrow> (string \<rightharpoonup> int)" where
  "addExpense acc expense =
     (let acc1 =
            (if acc (e_category expense) = None \<or> acc (e_category expense) = Some 0
             then acc(e_category expense \<mapsto> 0) else acc)
      in acc1(e_category expense \<mapsto> the (acc1 (e_category expense)) + e_amount expense))"

definition db_getBudgetSummary :: "dbStorage \<Rightarrow> budgetSummary" where
  "db_getBudgetSummary d =
     (let allBudgetItems = db_getBudgetItems d;
          allExpenses = db_getExpenses d;
          totalBudget = foldl (\<lambda>sum item. sum + b_estimatedAmount item) 0 allBudgetItems;
          totalExpenses = sum_list (map e_amount (expenses d));
          totalContributions = sum_list (map c_amount (contributions d));
          balance = totalContributions - totalExpenses;
          expensesByCategory = foldl addExpense Map.empty allExpenses;
          categoryBreakdown = map (\<lambda>category.
              (let categoryBudgetItems = filter (\<lambda>item. b_category item = category) allBudgetItems;
                   estimatedAmount =
                     foldl (\<lambda>sum item. sum + b_estimatedAmount item) 0 categoryBudgetItems;
                   actualAmount = orZero (expensesByCategory category)
               in \<lparr> cb_category = category, cb_estimatedAmount = estimatedAmount,
                    cb_actualAmount = actualAmount \<rparr>)) categories
      in \<lparr> bs_totalBudget = totalBudget, bs_totalExpenses = totalExpenses,
           bs_totalContributions = totalContributions, bs_balance = balance,
           bs_categoryBreakdown = categoryBreakdown \<rparr>)"

subsection \<open>Bulk import\<close>



section \<open>Ledger consistency and well-formed stores\<close>

text \<open>
  The sum of the ledger rows that reference attendee \<open>k\<close>, and the statement that every
  attendee's \<open>contributionAmount\<close> is that sum.
\<close>

definition ledgerSum :: "contribution list \<Rightarrow> int \<Rightarrow> int" where
  "ledgerSum ledger k = sum_list (map c_amount (filter (\<lambda>c. c_studentId c = Some k) ledger))"

definition consistent :: "memStorage \<Rightarrow> bool" where
  "consistent s \<longleftrightarrow>
     (\<forall>st \<in> set (Map_values (studentMap s)).
        s_contributionAmount st = Some (ledgerSum (Map_values (contributionMap s)) (s_id st)))"

definition db_consistent :: "dbStorage \<Rightarrow> bool" where
  "db_consistent d \<longleftrightarrow>
     (\<forall>st \<in> set (students d).
        s_contributionAmount st = Some (ledgerSum (contributions d) (s_id st)))"

text \<open>The stores the constructors leave: empty maps and tables, counters and sequences at \<open>1\<close>.\<close>

definition newMemStorage :: memStorage where
  "newMemStorage = \<lparr> studentMap = [], budgetItemMap = [], expenseMap = [], contributionMap = [],
     currentStudentId = 1, currentBudgetItemId = 1, currentExpenseId = 1,
     currentContributionId = 1 \<rparr>"

definition newDbStorage :: dbStorage where
  "newDbStorage = \<lparr> students = [], budgetItems = [], expenses = [], contributions = [],
     users = [], students_id_seq = 1, contributions_id_seq = 1 \<rparr>"

text \<open>
  What the stores guarantee by construction. A \<open>Map\<close> holds a key once; every method
  stores a record under its own id; ids are drawn from a counter that starts at \<open>1\<close> and
  only grows, so the stored ids are positive and below the counter. In the durable store
  \<open>id\<close> is the primary key of each table and comes from its sequence. The stores of the
  constructors are well-formed, and the contribution methods and the bulk import keep a
  store well-formed (lemmas \<open>new_wellFormed\<close>, \<open>create_wellFormed\<close>, \<open>update_wellFormed\<close>,
  \<open>delete_wellFormed\<close>, \<open>import_existing\<close>, \<open>import_new\<close> and their durable counterparts).
\<close>

definition wellFormed :: "memStorage \<Rightarrow> bool" where
  "wellFormed s \<longleftrightarrow>
     distinct (map fst (studentMap s)) \<and>
     (\<forall>p \<in> set (studentMap s). s_id (snd p) = fst p \<and> 0 < fst p \<and> fst p < currentStudentId s) \<and>
     distinct (map fst (contributionMap s)) \<and>
     (\<forall>p \<in> set (contributionMap s). c_id (snd p) = fst p \<and> 0 < fst p \<and> fst p < currentContributionId s) \<and>
     0 < currentStudentId s \<and> 0 < currentContributionId s"

definition db_wellFormed :: "dbStorage \<Rightarrow> bool" where
  "db_wellFormed d \<longleftrightarrow>
     distinct (map s_id (students d)) \<and>
     (\<forall>r \<in> set (students d). 0 < s_id r \<and> s_id r < students_id_seq d) \<and>
     distinct (map c_id (contributions d)) \<and>
     (\<forall>r \<in> set (contributions d). 0 < c_id r \<and> c_id r < contributions_id_seq d) \<and>
     0 < students_id_seq d \<and> 0 < contributions_id_seq d"



text \<open>The attendee filter of \<open>getContributions\<close>: an absent or zero \<open>studentId\<close> selects every row.\<close>

definition filterByAttendee :: "int option \<Rightarrow> contribution list \<Rightarrow> contribution list" where
  "filterByAttendee k rows =
     (if k = None \<or> k = Some 0 then rows else filter (\<lambda>c. c_studentId c = k) rows)"

text \<open>
  An update payload keeps the attendee of a row when it has no \<open>studentId\<close> key or when
  the key holds the \<open>studentId\<close> the row already has.
\<close>

definition keepsAttendee :: "contribution option \<Rightarrow> partialContribution \<Rightarrow> bool" where
  "keepsAttendee row data =
     (case row of
        None \<Rightarrow> True
      | Some c \<Rightarrow> pc_studentId data = None \<or> pc_studentId data = Some (c_studentId c))"

section \<open>Example stores\<close>

definition asha :: student where
  "asha = \<lparr> s_id = 1, s_firstName = ''Asha'', s_lastName = ''Rao'', s_section = ''A'',
     s_gender = ''female'', s_mobile = ''9000000001'', s_email = None, s_dob = None,
     s_city = None, s_work = None, s_attendingStatus = Some attending,
     s_paidStatus = Some paid, s_contributionAmount = Some 800, s_createdAt = Some 0 \<rparr>"

definition bala :: student where
  "bala = \<lparr> s_id = 2, s_firstName = ''Bala'', s_lastName = ''Iyer'', s_section = ''B'',
     s_gender = ''male'', s_mobile = ''9000000002'', s_email = None, s_dob = None,
     s_city = None, s_work = None, s_attendingStatus = Some not_confirmed,
     s_paidStatus = Some not_paid, s_contributionAmount = Some 0, s_createdAt = Some 0 \<rparr>"

definition gift500 :: contribution where
  "gift500 = \<lparr> c_id = 1, c_studentId = Some 1, c_amount = 500, c_date = 20000,
     c_recordedBy = Some 1, c_createdAt = Some 0 \<rparr>"

definition gift300 :: contribution where
  "gift300 = \<lparr> c_id = 2, c_studentId = Some 1, c_amount = 300, c_date = 20005,
     c_recordedBy = Some 1, c_createdAt = Some 0 \<rparr>"

definition hall :: budgetItem where
  "hall = \<lparr> b_id = 1, b_name = ''Hall'', b_category = ''venue'', b_description = ''Main hall'',
     b_estimatedAmount = 200, b_createdAt = Some 0 \<rparr>"

definition deposit :: expense where
  "deposit = \<lparr> e_id = 1, e_title = ''Deposit'', e_category = ''venue'',
     e_description = ''Hall deposit'', e_amount = 50, e_date = 20001, e_receiptImage = None,
     e_createdBy = Some 1, e_createdAt = Some 0 \<rparr>"

definition exMem :: memStorage where
  "exMem = \<lparr> studentMap = [(1, asha), (2, bala)], budgetItemMap = [(1, hall)],
     expenseMap = [(1, deposit)], contributionMap = [(1, gift500), (2, gift300)],
     currentStudentId = 3, currentBudgetItemId = 2, currentExpenseId = 2,
     currentContributionId = 3 \<rparr>"

definition admin :: user where
  "admin = \<lparr> u_id = 1, u_username = ''admin'', u_password = ''secret'', u_role = ''superadmin'',
     u_section = None, u_studentId = None \<rparr>"

definition exDb :: dbStorage where
  "exDb = \<lparr> students = [asha, bala], budgetItems = [hall], expenses = [deposit],
     contributions = [gift500, gift300], users = [admin],
     students_id_seq = 3, contributions_id_seq = 3 \<rparr>"

definition chitra :: student where
  "chitra = \<lparr> s_id = 3, s_firstName = ''Chitra'', s_lastName = ''Nair'', s_section = ''C'',
     s_gender = ''female'', s_mobile = ''9000000003'', s_email = None, s_dob = None,
     s_city = None, s_work = None, s_attendingStatus = Some not_confirmed,
     s_paidStatus = Some pending, s_contributionAmount = None, s_createdAt = Some 0 \<rparr>"

definition dev :: student where
  "dev = \<lparr> s_id = 4, s_firstName = ''Dev'', s_lastName = ''Shah'', s_section = ''D'',
     s_gender = ''male'', s_mobile = ''9000000004'', s_email = None, s_dob = None,
     s_city = None, s_work = None, s_attendingStatus = Some attending,
     s_paidStatus = Some paid, s_contributionAmount = Some 2, s_createdAt = Some 0 \<rparr>"

definition paid5 :: contribution where
  "paid5 = \<lparr> c_id = 1, c_studentId = Some 4, c_amount = 5, c_date = 20000,
     c_recordedBy = Some 1, c_createdAt = Some 0 \<rparr>"

definition refund3 :: contribution where
  "refund3 = \<lparr> c_id = 2, c_studentId = Some 4, c_amount = - 3, c_date = 20001,
     c_recordedBy = Some 1, c_createdAt = Some 0 \<rparr>"

definition refund5 :: contribution where
  "refund5 = \<lparr> c_id = 1, c_studentId = Some 2, c_amount = - 5, c_date = 20000,
     c_recordedBy = Some 1, c_createdAt = Some 0 \<rparr>"

definition gift200 :: contribution where
  "gift200 = \<lparr> c_id = 2, c_studentId = Some 3, c_amount = 200, c_date = 20001,
     c_recordedBy = Some 1, c_createdAt = Some 0 \<rparr>"

definition exRefund :: memStorage where
  "exRefund = \<lparr> studentMap = [(4, dev)], budgetItemMap = [], expenseMap = [],
     contributionMap = [(1, paid5), (2, refund3)],
     currentStudentId = 5, currentBudgetItemId = 1, currentExpenseId = 1,
     currentContributionId = 3 \<rparr>"

definition exDbDrift :: dbStorage where
  "exDbDrift = \<lparr> students = [bala, chitra], budgetItems = [], expenses = [],
     contributions = [refund5, gift200], users = [admin],
     students_id_seq = 4, contributions_id_seq = 3 \<rparr>"

text \<open>The example store with a login for attendee \<open>2\<close>.\<close>

definition balaLogin :: user where
  "balaLogin = \<lparr> u_id = 2, u_username = ''bala'', u_password = ''secret'', u_role = ''student'',
     u_section = Some ''B'', u_studentId = Some 2 \<rparr>"

definition exDbLogin :: dbStorage where
  "exDbLogin = exDb\<lparr> users := [admin, balaLogin] \<rparr>"

text \<open>
  Stores in which \<open>100 * 23 / 40 = 57.5\<close> lies halfway between two integers: expenses of
  \<open>23\<close> against a budget of \<open>40\<close> and contributions of \<open>40\<close>.
\<close>

definition esha :: student where
  "esha = \<lparr> s_id = 5, s_firstName = ''Esha'', s_lastName = ''Das'', s_section = ''A'',
     s_gender = ''female'', s_mobile = ''9000000005'', s_email = None, s_dob = None,
     s_city = None, s_work = None, s_attendingStatus = Some attending,
     s_paidStatus = Some paid, s_contributionAmount = Some 40, s_createdAt = Some 0 \<rparr>"

definition gift40 :: contribution where
  "gift40 = \<lparr> c_id = 1, c_studentId = Some 5, c_amount = 40, c_date = 20000,
     c_recordedBy = Some 1, c_createdAt = Some 0 \<rparr>"

definition stage :: budgetItem where
  "stage = \<lparr> b_id = 1, b_name = ''Stage'', b_category = ''entertainment'',
     b_description = ''Stage hire'', b_estimatedAmount = 40, b_createdAt = Some 0 \<rparr>"

definition lights :: expense where
  "lights = \<lparr> e_id = 1, e_title = ''Lights'', e_category = ''entertainment'',
     e_description = ''Stage lights'', e_amount = 23, e_date = 20001, e_receiptImage = None,
     e_createdBy = Some 1, e_createdAt = Some 0 \<rparr>"

definition exMemHalf :: memStorage where
  "exMemHalf = \<lparr> studentMap = [(5, esha)], budgetItemMap = [(1, stage)],
     expenseMap = [(1, lights)], contributionMap = [(1, gift40)],
     currentStudentId = 6, currentBudgetItemId = 2, currentExpenseId = 2,
     currentContributionId = 2 \<rparr>"

definition exDbHalf :: dbStorage where
  "exDbHalf = \<lparr> students = [esha], budgetItems = [stage], expenses = [lights],
     contributions = [gift40], users = [admin],
     students_id_seq = 6, contributions_id_seq = 2 \<rparr>"






section \<open>Auxiliary lemmas\<close>

subsection \<open>Sums, rounding and slices\<close>

lemma foldl_add_sum: "foldl (\<lambda>sum x. sum + f x) (a::int) xs = a + sum_list (map f xs)"
  by (induction xs arbitrary: a) auto

lemma mem_breakdown:
  "bs_categoryBreakdown (getBudgetSummary s) =
     map (\<lambda>category.
        \<lparr> cb_category = category,
          cb_estimatedAmount = sum_list (map b_estimatedAmount
             (filter (\<lambda>item. b_category item = category) (Map_values (budgetItemMap s)))),
          cb_actualAmount = sum_list (map e_amount
             (filter (\<lambda>expense. e_category expense = category) (Map_values (expenseMap s)))) \<rparr>)
       categories"
  by (simp add: getBudgetSummary_def Let_def foldl_add_sum getBudgetItems_def getExpenses_def)

lemma sum_insort_key: "sum_list (map (g::'a \<Rightarrow> int) (insort_key f x xs)) = g x + sum_list (map g xs)"
  by (induction xs) auto

lemma sum_sort_key: "sum_list (map (g::'a \<Rightarrow> int) (sort_key f xs)) = sum_list (map g xs)"
  by (induction xs) (auto simp: sum_insort_key)

lemma addExpense_other: "e_category x \<noteq> c \<Longrightarrow> addExpense acc x c = acc c"
  by (simp add: addExpense_def Let_def)

lemma addExpense_same: "e_category x = c \<Longrightarrow> orZero (addExpense acc x c) = orZero (acc c) + e_amount x"
  by (auto simp add: addExpense_def Let_def orZero_def split: option.splits)

lemma foldl_addExpense:
  "orZero (foldl addExpense acc xs c) =
     orZero (acc c) + sum_list (map e_amount (filter (\<lambda>e. e_category e = c) xs))"
proof (induction xs arbitrary: acc)
  case Nil
  then show ?case by simp
next
  case (Cons x xs)
  show ?case
  proof (cases "e_category x = c")
    case True
    then show ?thesis using Cons [of "addExpense acc x"] by (simp add: addExpense_same)
  next
    case False
    then show ?thesis using Cons [of "addExpense acc x"] by (simp add: addExpense_other)
  qed
qed

lemma db_breakdown:
  "bs_categoryBreakdown (db_getBudgetSummary d) =
     map (\<lambda>category.
        \<lparr> cb_category = category,
          cb_estimatedAmount = sum_list (map b_estimatedAmount
             (filter (\<lambda>item. b_category item = category) (budgetItems d))),
          cb_actualAmount = sum_list (map e_amount
             (filter (\<lambda>expense. e_category expense = category) (expenses d))) \<rparr>)
       categories"
proof -
  have "orZero (foldl addExpense Map.empty (sort_key (\<lambda>e. - e_date e) (expenses d)) c) =
        sum_list (map e_amount (filter (\<lambda>expense. e_category expense = c) (expenses d)))" for c
    by (simp add: foldl_addExpense filter_sort sum_sort_key) (simp add: orZero_def)
  then show ?thesis
    by (simp add: db_getBudgetSummary_def Let_def foldl_add_sum db_getBudgetItems_def db_getExpenses_def)
qed

lemma floor_numeral_quotient: "\<lfloor>(numeral a :: rat) / numeral b\<rfloor> = numeral a div numeral b"
  using floor_divide_of_int_eq [of "numeral a" "numeral b", where ?'a = rat] by simp

subsection \<open>Rounding to binary64\<close>

text \<open>
  Rounding to even stays within half a unit and \<open>floorLog2\<close> is the binary exponent, so a
  number in the normal range is rounded with a relative error of at most \<open>1 / 2 ^ 53\<close>, and
  an integer below \<open>2 ^ 53\<close> in magnitude is a binary64 value. For \<open>(e / b) * 100\<close> on
  integers the two roundings stay so close to the exact value that \<open>Math.round\<close> can differ
  from the rounding of the exact value only when that value lies halfway between two
  integers.
\<close>

lemma roundToEven_error: "\<bar>of_int (roundToEven x) - x\<bar> \<le> 1 / 2"
proof -
  have "of_int \<lfloor>x\<rfloor> \<le> x" and "x < of_int \<lfloor>x\<rfloor> + 1" by linarith+
  then show ?thesis by (auto simp: roundToEven_def Let_def abs_le_iff)
qed

lemma roundToEven_of_int: "roundToEven (of_int n) = n"
  by (simp add: roundToEven_def)

lemma floorLog2_bounds:
  assumes "0 < x"
  shows "2 powi (floorLog2 x) \<le> x" and "x < 2 powi (floorLog2 x + 1)"
proof -
  obtain p q where pq: "quotient_of x = (p, q)" by (cases "quotient_of x")
  then have x: "x = of_int p / of_int q" and q: "0 < q"
    by (simp_all add: quotient_of_div quotient_of_denom_pos)
  from assms x q have p: "0 < p" by (simp add: zero_less_divide_iff)
  let ?e = "bitlen p - bitlen q"
  from bitlen_bounds [OF p] have p1: "(2::int) ^ nat (bitlen p - 1) \<le> p" and p2: "p < 2 ^ nat (bitlen p)" by auto
  from bitlen_bounds [OF q] have q1: "(2::int) ^ nat (bitlen q - 1) \<le> q" and q2: "q < 2 ^ nat (bitlen q)" by auto
  have bp: "1 \<le> bitlen p" and bq: "1 \<le> bitlen q"
    using p q bitlen_eq_zero_iff [of p] bitlen_eq_zero_iff [of q] bitlen_nonneg [of p] bitlen_nonneg [of q]
    by linarith+
  have P1: "(2::rat) powi (bitlen p - 1) \<le> of_int p"
  proof -
    have "(of_int ((2::int) ^ nat (bitlen p - 1)) :: rat) \<le> of_int p" using p1 by (simp only: of_int_le_iff)
    then show ?thesis using bp by (simp add: power_int_def)
  qed
  have P2: "(of_int p :: rat) < 2 powi (bitlen p)"
  proof -
    have "(of_int p :: rat) < of_int ((2::int) ^ nat (bitlen p))" using p2 by (simp only: of_int_less_iff)
    then show ?thesis using bp by (simp add: power_int_def)
  qed
  have Q1: "(2::rat) powi (bitlen q - 1) \<le> of_int q"
  proof -
    have "(of_int ((2::int) ^ nat (bitlen q - 1)) :: rat) \<le> of_int q" using q1 by (simp only: of_int_le_iff)
    then show ?thesis using bq by (simp add: power_int_def)
  qed
  have Q2: "(of_int q :: rat) < 2 powi (bitlen q)"
  proof -
    have "(of_int q :: rat) < of_int ((2::int) ^ nat (bitlen q))" using q2 by (simp only: of_int_less_iff)
    then show ?thesis using bq by (simp add: power_int_def)
  qed
  have qpos: "(0::rat) < of_int q" using q by simp
  have lower: "(2::rat) powi (?e - 1) \<le> x"
  proof -
    have "(2::rat) powi (?e - 1) * of_int q \<le> 2 powi (?e - 1) * 2 powi (bitlen q)"
      using Q2 by (intro mult_left_mono) auto
    also have "\<dots> = 2 powi (bitlen p - 1)" by (simp add: power_int_add [symmetric])
    also have "\<dots> \<le> of_int p" by (rule P1)
    finally show ?thesis using qpos by (simp add: x pos_le_divide_eq)
  qed
  have upper: "x < (2::rat) powi (?e + 1)"
  proof -
    have "of_int p < (2::rat) powi (bitlen p)" by (rule P2)
    also have "\<dots> = 2 powi (?e + 1) * 2 powi (bitlen q - 1)" by (simp add: power_int_add [symmetric])
    also have "\<dots> \<le> 2 powi (?e + 1) * of_int q"
      using Q1 by (intro mult_left_mono) auto
    finally show ?thesis using qpos by (simp add: x pos_divide_less_eq)
  qed
  show "2 powi (floorLog2 x) \<le> x"
    using lower by (simp add: floorLog2_def pq Let_def)
  show "x < 2 powi (floorLog2 x + 1)"
    using upper by (auto simp add: floorLog2_def pq Let_def not_le)
qed

lemma two_powi_less_D: "(2::rat) powi m < 2 powi n \<Longrightarrow> m < n"
  using power_int_increasing [of n m "2::rat"] by (cases "m < n") auto

lemma scaled_error: "0 < (u::rat) \<Longrightarrow> \<bar>a * u - x\<bar> = \<bar>a - x / u\<bar> * u"
proof -
  assume u: "0 < u"
  have "\<bar>a - x / u\<bar> * u = \<bar>(a - x / u) * u\<bar>" using u by (simp add: abs_mult)
  also have "(a - x / u) * u = a * u - x" using u by (simp add: field_simps)
  finally show ?thesis by simp
qed

lemma toDouble_error:
  assumes "2 powi (- 1022) \<le> \<bar>x\<bar>"
  shows "\<bar>toDouble x - x\<bar> \<le> \<bar>x\<bar> / 2 ^ 53"
proof -
  have pos: "0 < \<bar>x\<bar>" using assms by (auto intro: less_le_trans [of 0 "2 powi (- 1022)"])
  then have nz: "x \<noteq> 0" by simp
  let ?e = "floorLog2 \<bar>x\<bar>"
  from floorLog2_bounds [OF pos] have lo: "2 powi ?e \<le> \<bar>x\<bar>" and hi: "\<bar>x\<bar> < 2 powi (?e + 1)" by auto
  from assms hi have "(2::rat) powi (- 1022) < 2 powi (?e + 1)" by simp
  then have "- 1022 < ?e + 1" by (rule two_powi_less_D)
  then have e: "max ?e (- 1022) = ?e" by simp
  let ?u = "(2::rat) powi (?e - 52)"
  have u: "0 < ?u" by simp
  have td: "toDouble x = of_int (roundToEven (x / ?u)) * ?u"
    using nz e by (simp add: toDouble_def Let_def)
  have "\<bar>toDouble x - x\<bar> = \<bar>of_int (roundToEven (x / ?u)) - x / ?u\<bar> * ?u"
    unfolding td by (rule scaled_error [OF u])
  also have "\<dots> \<le> (1 / 2) * ?u"
    using roundToEven_error [of "x / ?u"] u by (intro mult_right_mono) simp_all
  also have "\<dots> = 2 powi ?e / 2 ^ 53"
    by (simp add: power_int_diff)
  also have "\<dots> \<le> \<bar>x\<bar> / 2 ^ 53" using lo by (simp add: divide_right_mono)
  finally show ?thesis .
qed

lemma toDouble_of_int:
  assumes "\<bar>n\<bar> < 2 ^ 53"
  shows "toDouble (of_int n) = of_int n"
proof (cases "n = 0")
  case True
  then show ?thesis by (simp add: toDouble_def)
next
  case False
  let ?x = "of_int n :: rat"
  have pos: "0 < \<bar>?x\<bar>" using False by simp
  let ?e = "floorLog2 \<bar>?x\<bar>"
  from floorLog2_bounds [OF pos] have lo: "2 powi ?e \<le> \<bar>?x\<bar>" and hi: "\<bar>?x\<bar> < 2 powi (?e + 1)" by auto
  have "\<bar>?x\<bar> < 2 ^ 53" using assms by (metis of_int_abs of_int_less_iff of_int_numeral of_int_power)
  with lo have "(2::rat) powi ?e < 2 powi 53" by simp
  then have e53: "?e < 53" by (rule two_powi_less_D)
  have "1 \<le> \<bar>n\<bar>" using False by simp
  then have "(1::rat) \<le> of_int \<bar>n\<bar>" by (simp only: of_int_1_le_iff)
  then have "1 \<le> \<bar>?x\<bar>" by simp
  with hi have "(2::rat) powi 0 < 2 powi (?e + 1)" by simp
  then have "0 < ?e + 1" by (rule two_powi_less_D)
  then have e0: "0 \<le> ?e" by simp
  let ?k = "nat (52 - max ?e (- 1022))"
  have u: "(2::rat) powi (max ?e (- 1022) - 52) = 1 / 2 ^ ?k"
    using e53 e0 by (simp add: power_int_def max_def inverse_eq_divide power_one_over [symmetric] del: power_one_over)
  have "?x * 2 ^ ?k = of_int (n * 2 ^ ?k)" by simp
  then have r: "roundToEven (?x * 2 ^ ?k) = n * 2 ^ ?k" by (simp only: roundToEven_of_int)
  show ?thesis
    using False by (simp add: toDouble_def Let_def u r)
qed

lemma shrink53: "0 \<le> (y::rat) \<Longrightarrow> y / 2 ^ 53 \<le> y / 2" "0 \<le> (y::rat) \<Longrightarrow> y / 2 ^ 53 \<le> y"
proof -
  assume y: "0 \<le> y"
  show "y / 2 ^ 53 \<le> y / 2" using y by (intro divide_left_mono) simp_all
  have "y / 2 ^ 53 \<le> y / 1" using y by (intro divide_left_mono) simp_all
  then show "y / 2 ^ 53 \<le> y" by simp
qed

lemma percent_error_general:
  fixes x :: rat
  assumes x: "2 powi (- 1022) \<le> \<bar>x\<bar> / 2"
  shows "\<bar>toDouble (toDouble x * 100) - 100 * x\<bar> \<le> 300 * (\<bar>x\<bar> / 2 ^ 53)"
proof -
  define q where "q = toDouble x"
  define p where "p = toDouble (q * 100)"
  define d where "d = \<bar>x\<bar> / 2 ^ 53"
  have d2: "d \<le> \<bar>x\<bar> / 2" unfolding d_def by (rule shrink53) simp
  have "2 powi (- 1022) \<le> \<bar>x\<bar>" using x by linarith
  from toDouble_error [OF this] have q: "\<bar>q - x\<bar> \<le> d" by (simp only: q_def d_def)
  have qlow: "\<bar>x\<bar> / 2 \<le> \<bar>q\<bar>" using q d2 by linarith
  have qhigh: "\<bar>q\<bar> \<le> 2 * \<bar>x\<bar>" using q d2 by linarith
  have q100: "\<bar>q * 100\<bar> = 100 * \<bar>q\<bar>" by (simp add: abs_mult)
  have "2 powi (- 1022) \<le> \<bar>q * 100\<bar>" unfolding q100 using x qlow by linarith
  from toDouble_error [OF this] have "\<bar>p - q * 100\<bar> \<le> 100 * \<bar>q\<bar> / 2 ^ 53"
    by (simp only: p_def q100)
  also have "\<dots> \<le> 100 * (2 * \<bar>x\<bar>) / 2 ^ 53"
    using qhigh by (intro divide_right_mono mult_left_mono) simp_all
  also have "\<dots> = 200 * d" by (simp add: d_def)
  finally have p: "\<bar>p - q * 100\<bar> \<le> 200 * d" .
  have "\<bar>p - 100 * x\<bar> \<le> 300 * d" using p q by linarith
  then show ?thesis by (simp only: p_def q_def d_def)
qed

lemma percent_error:
  assumes e: "\<bar>e\<bar> \<le> 2 ^ 43" and b0: "b \<noteq> 0" and b: "\<bar>b\<bar> < 2 ^ 53"
  shows "\<bar>fmul (fdiv (of_int e) (of_int b)) 100 - 100 * of_int e / of_int b\<bar> * (2 * of_int \<bar>b\<bar>) < 1"
proof (cases "e = 0")
  case True
  then show ?thesis by (simp add: fdiv_def fmul_def toDouble_def)
next
  case False
  define x where "x = (of_int e / of_int b :: rat)"
  define B where "B = (of_int \<bar>b\<bar> :: rat)"
  define E where "E = (of_int \<bar>e\<bar> :: rat)"
  have "1 \<le> \<bar>b\<bar>" using b0 by simp
  then have B1: "1 \<le> B" unfolding B_def by (simp only: of_int_1_le_iff)
  have B53: "B < 2 ^ 53" unfolding B_def using b by (metis of_int_less_iff of_int_numeral of_int_power)
  have "1 \<le> \<bar>e\<bar>" using False by simp
  then have E1: "1 \<le> E" unfolding E_def by (simp only: of_int_1_le_iff)
  have E43: "E \<le> 2 ^ 43" unfolding E_def using e by (metis of_int_le_iff of_int_numeral of_int_power)
  have ax: "\<bar>x\<bar> = E / B" by (simp add: x_def E_def B_def)
  have small: "(2::rat) powi (- 1022) \<le> 1 / 2 ^ 54"
  proof -
    have "(2::rat) powi (- 1022) \<le> 2 powi (- 54)" by (rule power_int_increasing) simp_all
    also have "(2::rat) powi (- 54) = 1 / 2 ^ 54" by (simp add: power_int_minus_divide)
    finally show ?thesis .
  qed
  have xlow: "1 / 2 ^ 53 \<le> \<bar>x\<bar>"
  proof -
    have "1 / 2 ^ 53 \<le> 1 / B" using B1 B53 by (simp add: frac_le)
    also have "\<dots> \<le> E / B" using E1 B1 by (simp add: divide_right_mono)
    finally show ?thesis by (simp only: ax)
  qed
  have "(2::rat) powi (- 1022) \<le> \<bar>x\<bar> / 2"
  proof -
    have "(1::rat) / 2 ^ 54 = (1 / 2 ^ 53) / 2" by simp
    also have "\<dots> \<le> \<bar>x\<bar> / 2" using xlow by (intro divide_right_mono) simp_all
    finally show ?thesis using small by linarith
  qed
  from percent_error_general [OF this]
  have err: "\<bar>toDouble (toDouble x * 100) - 100 * x\<bar> \<le> 300 * (\<bar>x\<bar> / 2 ^ 53)" .
  have Bpos: "0 < B" using B1 by simp
  have "\<bar>toDouble (toDouble x * 100) - 100 * x\<bar> * (2 * B) \<le> (300 * (\<bar>x\<bar> / 2 ^ 53)) * (2 * B)"
    using err Bpos by (intro mult_right_mono) simp_all
  also have "\<dots> = 600 * E / 2 ^ 53" using Bpos by (simp only: ax) (simp add: field_simps)
  also have "\<dots> < 1" using E43 by (simp add: field_simps)
  finally show ?thesis by (simp add: fdiv_def fmul_def x_def B_def)
qed

lemma round_percent:
  fixes e b :: int
  assumes e: "\<bar>e\<bar> \<le> 2 ^ 43" and b0: "b \<noteq> 0" and b: "\<bar>b\<bar> < 2 ^ 53"
  defines "t \<equiv> 100 * of_int e / of_int b :: rat"
  defines "r \<equiv> Math_round (fmul (fdiv (of_int e) (of_int b)) 100)"
  shows "frac t \<noteq> 1 / 2 \<Longrightarrow> r = Math_round t"
    and "r = Math_round t \<or> r = Math_round t - 1"
proof -
  define p where "p = fmul (fdiv (of_int e) (of_int b)) 100"
  define N where "N = 2 * \<bar>b\<bar>"
  define M where "M = 200 * e * sgn b + \<bar>b\<bar>"
  define k where "k = \<lfloor>t + 1 / 2\<rfloor>"
  have N2: "2 \<le> N" using b0 by (simp add: N_def)
  then have Npos: "(0::rat) < of_int N" by simp
  have tM: "(t + 1 / 2) * of_int N = of_int M"
    using b0 by (cases "0 < b") (simp_all add: t_def N_def M_def field_simps)
  have "\<bar>p - t\<bar> * of_int N < 1"
    using percent_error [OF e b0 b] by (simp add: p_def t_def N_def)
  moreover have "(p + 1 / 2) * of_int N - of_int M = (p - t) * of_int N"
    by (simp add: tM [symmetric] algebra_simps)
  moreover have "\<bar>(p - t) * of_int N\<bar> = \<bar>p - t\<bar> * of_int N"
    using Npos by (simp add: abs_mult)
  ultimately have close: "\<bar>(p + 1 / 2) * of_int N - of_int M\<bar> < 1" by simp
  have k1: "of_int k \<le> t + 1 / 2" and k2: "t + 1 / 2 < of_int k + 1"
    unfolding k_def by linarith+
  have "of_int k * of_int N \<le> (t + 1 / 2) * (of_int N :: rat)"
    using k1 Npos by (intro mult_right_mono) simp_all
  then have "(of_int (k * N) :: rat) \<le> of_int M" by (simp add: tM)
  then have kM: "k * N \<le> M" by (simp only: of_int_le_iff)
  have "(t + 1 / 2) * (of_int N :: rat) < (of_int k + 1) * of_int N"
    using k2 Npos by (intro mult_strict_right_mono) simp_all
  then have "(of_int M :: rat) < of_int ((k + 1) * N)" by (simp add: tM)
  then have Mk: "M < (k + 1) * N" by (simp only: of_int_less_iff)
  then have "M + 1 \<le> (k + 1) * N" by simp
  then have "(of_int (M + 1) :: rat) \<le> of_int ((k + 1) * N)" by (simp only: of_int_le_iff)
  then have "(p + 1 / 2) * of_int N < (of_int k + 1) * of_int N" using close by simp
  then have "p + 1 / 2 < of_int (k + 1)" using Npos by (simp add: mult_less_cancel_right)
  then have up: "\<lfloor>p + 1 / 2\<rfloor> < k + 1" by (simp only: floor_less_iff)
  have "(k - 1) * N \<le> M - 1" using kM N2 by (simp add: algebra_simps)
  then have "(of_int ((k - 1) * N) :: rat) \<le> of_int (M - 1)" by (simp only: of_int_le_iff)
  then have "(of_int k - 1) * of_int N < (p + 1 / 2) * of_int N" using close by simp
  then have "of_int (k - 1) < p + 1 / 2" using Npos by (simp add: mult_less_cancel_right)
  then have "of_int (k - 1) \<le> p + 1 / 2" by simp
  then have low: "k - 1 \<le> \<lfloor>p + 1 / 2\<rfloor>" by (simp only: le_floor_iff)
  have rp: "r = \<lfloor>p + 1 / 2\<rfloor>" by (simp add: r_def p_def Math_round_def)
  have rt: "Math_round t = k" by (simp add: Math_round_def k_def)
  show "r = Math_round t \<or> r = Math_round t - 1"
    using up low unfolding rp rt by linarith
  assume nt: "frac t \<noteq> 1 / 2"
  have "M \<noteq> k * N"
  proof
    assume "M = k * N"
    then have "(t + 1 / 2) * of_int N = of_int k * of_int N" by (simp add: tM)
    then have "t + 1 / 2 = of_int k" using Npos by simp
    then have "t - 1 / 2 = of_int (k - 1)" by simp
    then have "t - 1 / 2 \<in> \<int>" by (simp only: Ints_of_int)
    then have "frac t = 1 / 2" by (subst frac_unique_iff) simp
    then show False using nt by simp
  qed
  with kM have "k * N + 1 \<le> M" by simp
  then have "(of_int (k * N + 1) :: rat) \<le> of_int M" by (simp only: of_int_le_iff)
  then have "of_int k * of_int N < (p + 1 / 2) * of_int N" using close by simp
  then have "of_int k < p + 1 / 2" using Npos by (simp add: mult_less_cancel_right)
  then have "of_int k \<le> p + 1 / 2" by simp
  then have "k \<le> \<lfloor>p + 1 / 2\<rfloor>" by (simp only: le_floor_iff)
  with up show "r = Math_round t" unfolding rp rt by linarith
qed

lemma slice_take_drop:
  assumes "0 \<le> offset" and "0 \<le> limit"
  shows "slice xs offset (offset + limit) = take (nat limit) (drop (nat offset) xs)"
proof (cases "nat offset \<le> length xs")
  case True
  with assms have "sliceIndex (length xs) offset = nat offset"
    by (simp add: sliceIndex_def)
  moreover from assms have "sliceIndex (length xs) (offset + limit) = min (nat offset + nat limit) (length xs)"
    by (simp add: sliceIndex_def nat_add_distrib)
  moreover have "take (min (nat offset + nat limit) (length xs) - nat offset) (drop (nat offset) xs)
      = take (nat limit) (drop (nat offset) xs)"
    using True by (simp add: min_def)
  ultimately show ?thesis
    by (simp add: slice_def Let_def)
next
  case False
  with assms show ?thesis
    by (simp add: slice_def Let_def sliceIndex_def)
qed

subsection \<open>The in-memory store\<close>

lemma getStudent_simps [simp]:
  "getStudent s None = None"
  "getStudent s (Some i) = Map_get (studentMap s) i"
  by (simp_all add: getStudent_def)

lemma db_getStudent_simps [simp]:
  "db_getStudent d None = None"
  "db_getStudent d (Some i) = find (\<lambda>r. s_id r = i) (students d)"
  by (simp_all add: db_getStudent_def)

lemma spread_amount:
  "spreadStudent st (noStudentData\<lparr> ps_contributionAmount := Some x \<rparr>) = st\<lparr> s_contributionAmount := x \<rparr>"
  by (simp add: spreadStudent_def noStudentData_def overwrite_def)

lemma spread_amount_paid:
  "spreadStudent st (noStudentData\<lparr> ps_contributionAmount := Some x, ps_paidStatus := Some paid \<rparr>) =
     st\<lparr> s_contributionAmount := x, s_paidStatus := Some paid \<rparr>"
  by (simp add: spreadStudent_def noStudentData_def overwrite_def)

lemma Map_set_fresh: "k \<notin> fst ` set al \<Longrightarrow> Map_set al k v = al @ [(k, v)]"
  by (induction al) auto

lemma wf_student: 
  "wellFormed s \<Longrightarrow> Map_get (studentMap s) k = Some st \<Longrightarrow> s_id st = k \<and> 0 < k"
  by (auto simp: wellFormed_def dest!: map_of_SomeD)

lemma wf_fresh: "wellFormed s \<Longrightarrow> currentContributionId s \<notin> fst ` set (contributionMap s)"
  by (auto simp: wellFormed_def)

lemma updateStudent_found:
  "Map_get (studentMap s) k = Some st \<Longrightarrow>
     updateStudent s k v = (s\<lparr> studentMap := Map_set (studentMap s) k (spreadStudent st v) \<rparr>, Some (spreadStudent st v))"
  by (simp add: updateStudent_def Let_def)

lemma createContribution_absent:
  assumes "getStudent s (ic_studentId v) = None"
  shows "createContribution now s v =
           (s\<lparr> currentContributionId := currentContributionId s + 1,
               contributionMap := Map_set (contributionMap s) (currentContributionId s)
                  (newRow now (currentContributionId s) v) \<rparr>,
            newRow now (currentContributionId s) v)"
proof -
  have "getStudent (s\<lparr> currentContributionId := i, contributionMap := m \<rparr>) k = getStudent s k" for i m k
    by (cases k) simp_all
  with assms show ?thesis
    by (simp add: createContribution_def Let_def)
qed

lemma createContribution_present:
  assumes wf: "wellFormed s" and st: "Map_get (studentMap s) a = Some st" and v: "ic_studentId v = Some a"
  shows "createContribution now s v =
           (s\<lparr> currentContributionId := currentContributionId s + 1,
               contributionMap := contributionMap s @ [(currentContributionId s, newRow now (currentContributionId s) v)],
               studentMap := Map_set (studentMap s) a
                  (st\<lparr> s_contributionAmount := Some (orZero (s_contributionAmount st) + ic_amount v),
                       s_paidStatus := (if (\<forall>c \<in> set (Map_values (contributionMap s)). c_studentId c \<noteq> Some a)
                                           \<and> s_paidStatus st \<noteq> Some paid
                                        then Some paid else s_paidStatus st) \<rparr>) \<rparr>,
            newRow now (currentContributionId s) v)"
proof -
  let ?i = "currentContributionId s"
  let ?row = "newRow now ?i v"
  let ?s1 = "s\<lparr> currentContributionId := ?i + 1, contributionMap := contributionMap s @ [(?i, ?row)] \<rparr>"
  from wf st have id: "s_id st = a" and pos: "0 < a"
    using wf_student by blast+
  have cm: "Map_set (contributionMap s) ?i ?row = contributionMap s @ [(?i, ?row)]"
    using wf by (simp add: Map_set_fresh wf_fresh)
  have ex: "getContributions ?s1 \<lparr> o_studentId = Some a, o_limit = None, o_offset = None \<rparr> =
              filter (\<lambda>c. c_studentId c = Some a) (Map_values (contributionMap s)) @ [?row]"
    using pos v by (simp add: getContributions_def) (simp add: newRow_def)
  have len: "length (filter (\<lambda>c. c_studentId c = Some a) (Map_values (contributionMap s)) @ [?row]) = Suc 0
       \<longleftrightarrow> (\<forall>c \<in> set (Map_values (contributionMap s)). c_studentId c \<noteq> Some a)"
    by (simp add: filter_empty_conv)
  have st1: "Map_get (studentMap ?s1) a = Some st"
    using st by simp
  show ?thesis
    using v st id
    unfolding createContribution_def Let_def
    apply (simp add: ex len updateStudent_found [OF st1] cm spread_amount spread_amount_paid del: filter_append)
    apply (auto simp add: filter_empty_conv)
    done
qed

lemma set_Map_set:
  "distinct (map fst al) \<Longrightarrow> set (Map_set al k v) = insert (k, v) {p \<in> set al. fst p \<noteq> k}"
  by (induction al) (auto simp: image_iff)

lemma ledgerSum_alt:
  "ledgerSum xs j = sum_list (map (\<lambda>c. if c_studentId c = Some j then c_amount c else 0) xs)"
  by (induction xs) (simp_all add: ledgerSum_def)

lemma ledgerSum_append:
  "ledgerSum (xs @ [c]) j = ledgerSum xs j + (if c_studentId c = Some j then c_amount c else 0)"
  by (simp add: ledgerSum_def)

lemma sum_Map_set:
  "map_of al k = Some c \<Longrightarrow>
     sum_list (map h (Map_values (Map_set al k c'))) = sum_list (map h (Map_values al)) - h c + (h c' :: int)"
  by (induction al) (auto split: if_splits)

lemma sum_Map_delete:
  "distinct (map fst al) \<Longrightarrow> map_of al k = Some c \<Longrightarrow>
     sum_list (map h (Map_values (Map_delete al k))) = sum_list (map h (Map_values al)) - (h c :: int)"
proof (induction al)
  case Nil
  then show ?case by simp
next
  case (Cons p al)
  show ?case
  proof (cases "fst p = k")
    case True
    with Cons.prems have "k \<notin> fst ` set al" by auto
    then have "Map_delete al k = al" by simp
    with True Cons.prems show ?thesis by (cases p) (simp add: AList.delete_eq)
  next
    case False
    with Cons show ?thesis by (cases p) (simp add: AList.delete_eq)
  qed
qed

lemma ledgerSum_Map_set:
  "map_of al k = Some c \<Longrightarrow>
     ledgerSum (Map_values (Map_set al k c')) j =
       ledgerSum (Map_values al) j - (if c_studentId c = Some j then c_amount c else 0)
         + (if c_studentId c' = Some j then c_amount c' else 0)"
  unfolding ledgerSum_alt by (rule sum_Map_set)

lemma ledgerSum_Map_delete:
  "distinct (map fst al) \<Longrightarrow> map_of al k = Some c \<Longrightarrow>
     ledgerSum (Map_values (Map_delete al k)) j =
       ledgerSum (Map_values al) j - (if c_studentId c = Some j then c_amount c else 0)"
  unfolding ledgerSum_alt by (rule sum_Map_delete)

lemma consistentI:
  assumes "\<And>k st. (k, st) \<in> set (studentMap s) \<Longrightarrow>
             s_contributionAmount st = Some (ledgerSum (Map_values (contributionMap s)) (s_id st))"
  shows "consistent s"
  using assms by (auto simp: consistent_def)

lemma consistentD:
  "consistent s \<Longrightarrow> (k, st) \<in> set (studentMap s) \<Longrightarrow>
     s_contributionAmount st = Some (ledgerSum (Map_values (contributionMap s)) (s_id st))"
  by (force simp: consistent_def)

lemma wf_entry: "wellFormed s \<Longrightarrow> (k, st) \<in> set (studentMap s) \<Longrightarrow> s_id st = k \<and> Map_get (studentMap s) k = Some st"
  by (auto simp: wellFormed_def)

lemma create_consistent:
  assumes wf: "wellFormed s" and c: "consistent s"
  shows "consistent (fst (createContribution now s v))"
proof (cases "getStudent s (ic_studentId v)")
  case None
  let ?i = "currentContributionId s"
  have cm: "Map_set (contributionMap s) ?i (newRow now ?i v) = contributionMap s @ [(?i, newRow now ?i v)]"
    using wf by (simp add: Map_set_fresh wf_fresh)
  show ?thesis
  proof (rule consistentI)
    fix k st
    assume "(k, st) \<in> set (studentMap (fst (createContribution now s v)))"
    then have mem: "(k, st) \<in> set (studentMap s)"
      by (simp add: createContribution_absent [OF None])
    with wf have "s_id st = k" and "Map_get (studentMap s) k = Some st"
      using wf_entry by blast+
    with None have "c_studentId (newRow now ?i v) \<noteq> Some (s_id st)"
      by (cases "ic_studentId v") (auto simp: newRow_def)
    with consistentD [OF c mem]
    show "s_contributionAmount st =
            Some (ledgerSum (Map_values (contributionMap (fst (createContribution now s v)))) (s_id st))"
      by (simp add: createContribution_absent [OF None] cm ledgerSum_append)
  qed
next
  case (Some st0)
  then obtain a where v: "ic_studentId v = Some a" and st0: "Map_get (studentMap s) a = Some st0"
    by (cases "ic_studentId v") auto
  let ?i = "currentContributionId s"
  from wf st0 have id0: "s_id st0 = a"
    using wf_student by blast
  from wf have d: "distinct (map fst (studentMap s))"
    by (simp add: wellFormed_def)
  have old: "s_contributionAmount st0 = Some (ledgerSum (Map_values (contributionMap s)) a)"
    using consistentD [OF c map_of_SomeD [OF st0]] id0 by simp
  show ?thesis
  proof (rule consistentI)
    fix k st
    assume "(k, st) \<in> set (studentMap (fst (createContribution now s v)))"
    then consider (new) "k = a" and
        "st = st0\<lparr> s_contributionAmount := Some (orZero (s_contributionAmount st0) + ic_amount v),
                   s_paidStatus := (if (\<forall>c \<in> set (Map_values (contributionMap s)). c_studentId c \<noteq> Some a)
                                           \<and> s_paidStatus st0 \<noteq> Some paid
                                        then Some paid else s_paidStatus st0) \<rparr>"
      | (other) "(k, st) \<in> set (studentMap s)" and "k \<noteq> a"
      by (auto simp: createContribution_present [OF wf st0 v] set_Map_set [OF d])
    then show "s_contributionAmount st =
            Some (ledgerSum (Map_values (contributionMap (fst (createContribution now s v)))) (s_id st))"
    proof cases
      case new
      then show ?thesis
        using id0 old v
        by (simp add: createContribution_present [OF wf st0 v] ledgerSum_append newRow_def orZero_def)
    next
      case other
      with wf have "s_id st = k"
        using wf_entry by blast
      with other consistentD [OF c other(1)] v show ?thesis
        by (simp add: createContribution_present [OF wf st0 v] ledgerSum_append newRow_def)
    qed
  qed
qed

lemma setAmount_consistent:
  assumes wf: "wellFormed s" and c: "consistent s"
    and st0: "Map_get (studentMap s) a = Some st0"
    and ledger: "\<And>j. ledgerSum (Map_values cm') j =
                   ledgerSum (Map_values (contributionMap s)) j + (if j = a then delta else 0)"
    and total: "x = ledgerSum (Map_values (contributionMap s)) a + delta"
  shows "consistent (s\<lparr> studentMap := Map_set (studentMap s) a (st0\<lparr> s_contributionAmount := Some x \<rparr>),
                         contributionMap := cm' \<rparr>)"
proof (rule consistentI)
  fix k st
  from wf st0 have id0: "s_id st0 = a"
    using wf_student by blast
  from wf have d: "distinct (map fst (studentMap s))"
    by (simp add: wellFormed_def)
  assume "(k, st) \<in> set (studentMap (s\<lparr> studentMap := Map_set (studentMap s) a (st0\<lparr> s_contributionAmount := Some x \<rparr>),
                         contributionMap := cm' \<rparr>))"
  then consider (new) "k = a" and "st = st0\<lparr> s_contributionAmount := Some x \<rparr>"
    | (other) "(k, st) \<in> set (studentMap s)" and "k \<noteq> a"
    by (auto simp: set_Map_set [OF d])
  then show "s_contributionAmount st =
      Some (ledgerSum (Map_values (contributionMap (s\<lparr> studentMap := Map_set (studentMap s) a (st0\<lparr> s_contributionAmount := Some x \<rparr>),
                         contributionMap := cm' \<rparr>))) (s_id st))"
  proof cases
    case new
    then show ?thesis using id0 total by (simp add: ledger)
  next
    case other
    with wf have "s_id st = k"
      using wf_entry by blast
    with other consistentD [OF c other(1)] show ?thesis
      by (simp add: ledger)
  qed
qed

lemma sameTotals_consistent:
  assumes wf: "wellFormed s" and c: "consistent s"
    and ledger: "\<And>k st. (k, st) \<in> set (studentMap s) \<Longrightarrow>
                   ledgerSum (Map_values cm') k = ledgerSum (Map_values (contributionMap s)) k"
  shows "consistent (s\<lparr> contributionMap := cm' \<rparr>)"
proof (rule consistentI)
  fix k st
  assume "(k, st) \<in> set (studentMap (s\<lparr> contributionMap := cm' \<rparr>))"
  then have m: "(k, st) \<in> set (studentMap s)" by simp
  with wf have "s_id st = k"
    using wf_entry by blast
  with consistentD [OF c m] ledger [OF m]
  show "s_contributionAmount st = Some (ledgerSum (Map_values (contributionMap (s\<lparr> contributionMap := cm' \<rparr>))) (s_id st))"
    by simp
qed

lemma update_consistent:
  assumes wf: "wellFormed s" and c: "consistent s"
    and c0: "Map_get (contributionMap s) k = Some c0"
    and sid: "pc_studentId v = None \<or> pc_studentId v = Some (c_studentId c0)"
  shows "consistent (fst (updateContribution s k v))"
proof -
  let ?c' = "spreadContribution c0 v"
  let ?cm' = "Map_set (contributionMap s) k ?c'"
  have sid': "c_studentId ?c' = c_studentId c0"
    using sid by (auto simp: spreadContribution_def overwrite_def)
  have amt': "c_amount ?c' = (case pc_amount v of None \<Rightarrow> c_amount c0 | Some n \<Rightarrow> n)"
    by (simp add: spreadContribution_def overwrite_def)
  have ledger: "ledgerSum (Map_values ?cm') j =
      ledgerSum (Map_values (contributionMap s)) j
        + (if c_studentId c0 = Some j then c_amount ?c' - c_amount c0 else 0)" for j
    by (simp add: ledgerSum_Map_set [OF c0] sid')
  show ?thesis
  proof (cases "pc_amount v \<noteq> None \<and> pc_amount v \<noteq> Some (c_amount c0)")
    case False
    then have same: "c_amount ?c' = c_amount c0"
      by (auto simp: amt' split: option.splits)
    from False c0 have "fst (updateContribution s k v) = s\<lparr> contributionMap := ?cm' \<rparr>"
      by (auto simp: updateContribution_def Let_def)
    then show ?thesis
      using sameTotals_consistent [OF wf c, of ?cm'] by (simp add: ledger same)
  next
    case True
    then obtain n where n: "pc_amount v = Some n" "n \<noteq> c_amount c0"
      by auto
    show ?thesis
    proof (cases "getStudent s (c_studentId c0)")
      case None
      with True c0 have eq: "fst (updateContribution s k v) = s\<lparr> contributionMap := ?cm' \<rparr>"
        by (auto simp: updateContribution_def Let_def)
      have "ledgerSum (Map_values ?cm') j = ledgerSum (Map_values (contributionMap s)) j"
        if "(j, st) \<in> set (studentMap s)" for j st
      proof -
        from wf that have "Map_get (studentMap s) j = Some st"
          using wf_entry by blast
        with None have "c_studentId c0 \<noteq> Some j"
          by (cases "c_studentId c0") auto
        then show ?thesis by (simp add: ledger)
      qed
      then show ?thesis
        unfolding eq using sameTotals_consistent [OF wf c, of ?cm'] by blast
    next
      case (Some st0)
      then obtain a where a: "c_studentId c0 = Some a" and st0: "Map_get (studentMap s) a = Some st0"
        by (cases "c_studentId c0") auto
      from wf st0 have id0: "s_id st0 = a"
        using wf_student by blast
      have old: "s_contributionAmount st0 = Some (ledgerSum (Map_values (contributionMap s)) a)"
        using consistentD [OF c map_of_SomeD [OF st0]] id0 by simp
      have eq: "fst (updateContribution s k v) =
          s\<lparr> studentMap := Map_set (studentMap s) a
                 (st0\<lparr> s_contributionAmount := Some (orZero (s_contributionAmount st0) + (n - c_amount c0)) \<rparr>),
              contributionMap := ?cm' \<rparr>"
        using c0 n a st0 id0
        by (simp add: updateContribution_def Let_def updateStudent_found [OF st0] spread_amount)
      show ?thesis
        unfolding eq
      proof (rule setAmount_consistent [OF wf c st0, where delta = "n - c_amount c0"])
        show "ledgerSum (Map_values ?cm') j =
            ledgerSum (Map_values (contributionMap s)) j + (if j = a then n - c_amount c0 else 0)" for j
          using a n by (auto simp: ledger amt')
        show "orZero (s_contributionAmount st0) + (n - c_amount c0) =
            ledgerSum (Map_values (contributionMap s)) a + (n - c_amount c0)"
          by (simp add: old orZero_def)
      qed
    qed
  qed
qed

lemma ledgerSum_nonneg: "\<forall>c \<in> set xs. 0 \<le> c_amount c \<Longrightarrow> 0 \<le> ledgerSum xs j"
  by (induction xs) (auto simp: ledgerSum_def)

lemma delete_consistent:
  assumes wf: "wellFormed s" and c: "consistent s"
    and nonneg: "\<forall>c \<in> set (Map_values (contributionMap s)). 0 \<le> c_amount c"
  shows "consistent (fst (deleteContribution s k))"
proof (cases "Map_get (contributionMap s) k")
  case None
  with c show ?thesis by (simp add: deleteContribution_def)
next
  case (Some c0)
  let ?cm' = "Map_delete (contributionMap s) k"
  from wf have dc: "distinct (map fst (contributionMap s))"
    by (simp add: wellFormed_def)
  have ledger: "ledgerSum (Map_values ?cm') j =
      ledgerSum (Map_values (contributionMap s)) j
        + (if c_studentId c0 = Some j then - c_amount c0 else 0)" for j
    by (simp add: ledgerSum_Map_delete [OF dc Some])
  have sub: "set (Map_values ?cm') \<subseteq> set (Map_values (contributionMap s))"
    by (auto simp: AList.delete_eq)
  show ?thesis
  proof (cases "getStudent s (c_studentId c0)")
    case None
    with Some have eq: "fst (deleteContribution s k) = s\<lparr> contributionMap := ?cm' \<rparr>"
      by (auto simp: deleteContribution_def Let_def)
    have "ledgerSum (Map_values ?cm') j = ledgerSum (Map_values (contributionMap s)) j"
      if "(j, st) \<in> set (studentMap s)" for j st
    proof -
      from wf that have "Map_get (studentMap s) j = Some st"
        using wf_entry by blast
      with None have "c_studentId c0 \<noteq> Some j"
        by (cases "c_studentId c0") auto
      then show ?thesis by (simp add: ledger)
    qed
    then show ?thesis
      unfolding eq using sameTotals_consistent [OF wf c, of ?cm'] by blast
  next
    case (Some st0)
    then obtain a where a: "c_studentId c0 = Some a" and st0: "Map_get (studentMap s) a = Some st0"
      by (cases "c_studentId c0") auto
    from wf st0 have id0: "s_id st0 = a"
      using wf_student by blast
    have old: "s_contributionAmount st0 = Some (ledgerSum (Map_values (contributionMap s)) a)"
      using consistentD [OF c map_of_SomeD [OF st0]] id0 by simp
    have eq: "fst (deleteContribution s k) =
        s\<lparr> studentMap := Map_set (studentMap s) a
               (st0\<lparr> s_contributionAmount := Some (max 0 (orZero (s_contributionAmount st0) - c_amount c0)) \<rparr>),
            contributionMap := ?cm' \<rparr>"
      using \<open>Map_get (contributionMap s) k = Some c0\<close> a st0 id0
      by (simp add: deleteContribution_def Let_def updateStudent_found [OF st0] spread_amount)
    have "0 \<le> ledgerSum (Map_values ?cm') a"
      using nonneg sub by (intro ledgerSum_nonneg) blast
    then have rest: "0 \<le> ledgerSum (Map_values (contributionMap s)) a - c_amount c0"
      using a by (simp add: ledger)
    show ?thesis
      unfolding eq
    proof (rule setAmount_consistent [OF wf c st0, where delta = "- c_amount c0"])
      show "ledgerSum (Map_values ?cm') j =
          ledgerSum (Map_values (contributionMap s)) j + (if j = a then - c_amount c0 else 0)" for j
        using a by (auto simp: ledger)
      show "max 0 (orZero (s_contributionAmount st0) - c_amount c0) =
          ledgerSum (Map_values (contributionMap s)) a + - c_amount c0"
        using rest by (simp add: old orZero_def)
    qed
  qed
qed

subsection \<open>The durable store\<close>

lemma db_updateStudent_fst:
  "fst (db_updateStudent d k v) = d\<lparr> students := map (\<lambda>r. if s_id r = k then spreadStudent r v else r) (students d) \<rparr>"
  by (simp add: db_updateStudent_def Let_def)

lemma find_id: "find (\<lambda>r. f r = k) rows = Some x \<Longrightarrow> x \<in> set rows \<and> f x = k"
  by (auto simp: find_Some_iff)

lemma find_None_id: "find (\<lambda>r. f r = k) rows = None \<Longrightarrow> x \<in> set rows \<Longrightarrow> f x \<noteq> k"
  by (auto simp: find_None_iff)

lemma db_consistentI:
  assumes "\<And>st. st \<in> set (students d) \<Longrightarrow>
             s_contributionAmount st = Some (ledgerSum (contributions d) (s_id st))"
  shows "db_consistent d"
  using assms by (auto simp: db_consistent_def)

lemma db_consistentD:
  "db_consistent d \<Longrightarrow> st \<in> set (students d) \<Longrightarrow>
     s_contributionAmount st = Some (ledgerSum (contributions d) (s_id st))"
  by (simp add: db_consistent_def)

lemma dangling_simps [simp]:
  "dangling d None \<longleftrightarrow> False"
  "dangling d (Some a) \<longleftrightarrow> find (\<lambda>r. s_id r = a) (students d) = None"
  by (simp_all add: dangling_def)

lemma db_createContribution_absent:
  assumes "ic_studentId v = None"
  shows "db_createContribution now d v =
           (d\<lparr> contributions_id_seq := contributions_id_seq d + 1,
               contributions := contributions d @ [newRow now (contributions_id_seq d) v] \<rparr>,
            Inr (newRow now (contributions_id_seq d) v))"
  using assms by (simp add: db_createContribution_def Let_def)

lemma db_createContribution_dangling:
  assumes "ic_studentId v = Some a" and "find (\<lambda>r. s_id r = a) (students d) = None"
  shows "db_createContribution now d v =
           (d\<lparr> contributions_id_seq := contributions_id_seq d + 1 \<rparr>, Inl ForeignKeyViolation)"
  using assms by (simp add: db_createContribution_def Let_def)

lemma db_createContribution_present:
  assumes st: "find (\<lambda>r. s_id r = a) (students d) = Some st" and v: "ic_studentId v = Some a"
    and pos: "a \<noteq> 0"
  shows "db_createContribution now d v =
           (d\<lparr> contributions_id_seq := contributions_id_seq d + 1,
               contributions := contributions d @ [newRow now (contributions_id_seq d) v],
               students := map (\<lambda>r. if s_id r = a
                   then r\<lparr> s_contributionAmount := Some (orZero (s_contributionAmount st) + ic_amount v),
                          s_paidStatus := (if (\<forall>c \<in> set (contributions d). c_studentId c \<noteq> Some a)
                                              \<and> s_paidStatus st \<noteq> Some paid
                                           then Some paid else s_paidStatus r) \<rparr>
                   else r) (students d) \<rparr>,
            Inr (newRow now (contributions_id_seq d) v))"
proof -
  let ?i = "contributions_id_seq d"
  let ?row = "newRow now ?i v"
  let ?d1 = "d\<lparr> contributions_id_seq := ?i + 1, contributions := contributions d @ [?row] \<rparr>"
  from find_id [OF st] have id: "s_id st = a"
    by simp
  have ex: "db_getContributions ?d1 \<lparr> o_studentId = Some a, o_limit = None, o_offset = None \<rparr> =
              Inr (sort_key (\<lambda>c. - c_date c) (filter (\<lambda>c. c_studentId c = Some a) (contributions d) @ [?row]))"
    using pos v by (simp add: db_getContributions_def) (simp add: newRow_def)
  have len: "length (sort_key (\<lambda>c. - c_date c) (filter (\<lambda>c. c_studentId c = Some a) (contributions d) @ [?row])) = Suc 0
       \<longleftrightarrow> (\<forall>c \<in> set (contributions d). c_studentId c \<noteq> Some a)"
    by (simp add: filter_empty_conv)
  have st1: "find (\<lambda>r. s_id r = a) (students ?d1) = Some st"
    using st by simp
  show ?thesis
    using v st id
    unfolding db_createContribution_def Let_def
    by (simp add: ex len db_updateStudent_fst spread_amount spread_amount_paid del: filter_append length_sort)
qed

lemma db_sum_update:
  "distinct (map c_id rows) \<Longrightarrow> find (\<lambda>r. c_id r = k) rows = Some c \<Longrightarrow>
     sum_list (map h (map (\<lambda>r. if c_id r = k then g r else r) rows)) =
       sum_list (map h rows) - h c + (h (g c) :: int)"
proof (induction rows)
  case Nil
  then show ?case by simp
next
  case (Cons r rows)
  show ?case
  proof (cases "c_id r = k")
    case True
    with Cons.prems have "\<forall>x \<in> set rows. c_id x \<noteq> k"
      by (metis distinct.simps(2) image_eqI list.simps(9) set_map)
    then have "map (\<lambda>r. if c_id r = k then g r else r) rows = rows"
      by (simp add: map_idI)
    with True Cons.prems show ?thesis by simp
  next
    case False
    with Cons show ?thesis by simp
  qed
qed

lemma db_sum_delete:
  "distinct (map c_id rows) \<Longrightarrow> find (\<lambda>r. c_id r = k) rows = Some c \<Longrightarrow>
     sum_list (map h (filter (\<lambda>r. c_id r \<noteq> k) rows)) = sum_list (map h rows) - (h c :: int)"
proof (induction rows)
  case Nil
  then show ?case by simp
next
  case (Cons r rows)
  show ?case
  proof (cases "c_id r = k")
    case True
    with Cons.prems have "\<forall>x \<in> set rows. c_id x \<noteq> k"
      by (metis distinct.simps(2) image_eqI list.simps(9) set_map)
    then have "filter (\<lambda>r. c_id r \<noteq> k) rows = rows"
      by (simp add: filter_id_conv)
    with True Cons.prems show ?thesis by simp
  next
    case False
    with Cons show ?thesis by simp
  qed
qed

lemma db_setAmount_consistent:
  assumes c: "db_consistent d"
    and ledger: "\<And>j. ledgerSum (contributions d') j = ledgerSum (contributions d) j + (if j = a then delta else 0)"
    and total: "x = ledgerSum (contributions d) a + delta"
    and keep: "\<And>r. s_id (f r) = s_id r \<and> s_contributionAmount (f r) = Some x"
    and rows: "students d' = map (\<lambda>r. if s_id r = a then f r else r) (students d)"
  shows "db_consistent d'"
proof (rule db_consistentI)
  fix st
  assume "st \<in> set (students d')"
  then obtain r where r: "r \<in> set (students d)" and st: "st = (if s_id r = a then f r else r)"
    unfolding rows by auto
  show "s_contributionAmount st = Some (ledgerSum (contributions d') (s_id st))"
  proof (cases "s_id r = a")
    case True
    with st keep [of r] total show ?thesis by (simp add: ledger)
  next
    case False
    with st db_consistentD [OF c r] show ?thesis by (simp add: ledger)
  qed
qed

lemma db_sameTotals_consistent:
  assumes c: "db_consistent d"
    and ledger: "\<And>st. st \<in> set (students d) \<Longrightarrow>
        ledgerSum (contributions d') (s_id st) = ledgerSum (contributions d) (s_id st)"
    and rows: "students d' = students d"
  shows "db_consistent d'"
proof (rule db_consistentI)
  fix st
  assume "st \<in> set (students d')"
  then have m: "st \<in> set (students d)"
    by (simp add: rows)
  with db_consistentD [OF c m] ledger [OF m]
  show "s_contributionAmount st = Some (ledgerSum (contributions d') (s_id st))"
    by simp
qed

lemma db_create_consistent:
  assumes wf: "db_wellFormed d" and c: "db_consistent d"
  shows "db_consistent (fst (db_createContribution now d v))"
proof (cases "db_getStudent d (ic_studentId v)")
  case None
  let ?d' = "fst (db_createContribution now d v)"
  show ?thesis
  proof (cases "ic_studentId v")
    case null: None
    have cs: "contributions ?d' = contributions d @ [newRow now (contributions_id_seq d) v]"
      and rows: "students ?d' = students d"
      by (simp_all add: db_createContribution_absent [OF null])
    show ?thesis
    proof (rule db_sameTotals_consistent [OF c _ rows])
      fix st
      assume "st \<in> set (students d)"
      show "ledgerSum (contributions ?d') (s_id st) = ledgerSum (contributions d) (s_id st)"
        using null by (simp add: cs ledgerSum_append newRow_def)
    qed
  next
    case (Some a)
    with None have "find (\<lambda>r. s_id r = a) (students d) = None"
      by simp
    from db_createContribution_dangling [OF Some this]
    have "contributions ?d' = contributions d" and rows: "students ?d' = students d"
      by simp_all
    then show ?thesis
      using db_sameTotals_consistent [OF c _ rows] by simp
  qed
next
  case (Some st0)
  then obtain a where v: "ic_studentId v = Some a" and st0: "find (\<lambda>r. s_id r = a) (students d) = Some st0"
    by (cases "ic_studentId v") auto
  from find_id [OF st0] have mem: "st0 \<in> set (students d)" and id0: "s_id st0 = a"
    by simp_all
  with wf have pos: "a \<noteq> 0"
    by (auto simp: db_wellFormed_def)
  have old: "s_contributionAmount st0 = Some (ledgerSum (contributions d) a)"
    using db_consistentD [OF c mem] id0 by simp
  let ?d' = "fst (db_createContribution now d v)"
  let ?f = "\<lambda>r. r\<lparr> s_contributionAmount := Some (orZero (s_contributionAmount st0) + ic_amount v),
                  s_paidStatus := (if (\<forall>c \<in> set (contributions d). c_studentId c \<noteq> Some a)
                                      \<and> s_paidStatus st0 \<noteq> Some paid
                                   then Some paid else s_paidStatus r) \<rparr>"
  have cs: "contributions ?d' = contributions d @ [newRow now (contributions_id_seq d) v]"
    and rows: "students ?d' = map (\<lambda>r. if s_id r = a then ?f r else r) (students d)"
    by (simp_all add: db_createContribution_present [OF st0 v pos])
  show ?thesis
  proof (rule db_setAmount_consistent [OF c _ _ _ rows, where delta = "ic_amount v"])
    show "ledgerSum (contributions ?d') j = ledgerSum (contributions d) j + (if j = a then ic_amount v else 0)" for j
      using v by (simp add: cs ledgerSum_append newRow_def)
    show "orZero (s_contributionAmount st0) + ic_amount v = ledgerSum (contributions d) a + ic_amount v"
      by (simp add: old orZero_def)
    show "s_id (?f r) = s_id r \<and> s_contributionAmount (?f r) = Some (orZero (s_contributionAmount st0) + ic_amount v)" for r
      by simp
  qed
qed

lemma dangling_spread [simp]:
  "dangling (d\<lparr> students := map (\<lambda>r. if s_id r = k then spreadStudent r v else r) (students d) \<rparr>) a
     = dangling d a"
proof (cases a)
  case None
  then show ?thesis by simp
next
  case (Some i)
  have "find (\<lambda>r. s_id r = i) (map (\<lambda>r. if s_id r = k then spreadStudent r v else r) rows) = None
      \<longleftrightarrow> find (\<lambda>r. s_id r = i) rows = None" for rows
    by (induction rows) (auto simp: spreadStudent_def)
  with Some show ?thesis
    by simp
qed

lemma db_updateContribution_found:
  assumes c0: "db_getContribution d k = Some c0" and ne: "v \<noteq> noContributionData"
  shows "contributions (fst (db_updateContribution d k v)) =
           (if (case pc_studentId v of None \<Rightarrow> False | Some a \<Rightarrow> a \<noteq> c_studentId c0 \<and> dangling d a)
            then contributions d
            else map (\<lambda>r. if c_id r = k then spreadContribution r v else r) (contributions d))"
    and "students (fst (db_updateContribution d k v)) =
           (if pc_amount v \<noteq> None \<and> pc_amount v \<noteq> Some (c_amount c0)
            then (case db_getStudent d (c_studentId c0) of
                    None \<Rightarrow> students d
                  | Some st \<Rightarrow>
                      map (\<lambda>r. if s_id r = s_id st
                           then r\<lparr> s_contributionAmount :=
                                   Some (orZero (s_contributionAmount st) + (the (pc_amount v) - c_amount c0)) \<rparr>
                           else r) (students d))
            else students d)"
  using c0 ne
  by (simp_all add: db_updateContribution_def Let_def db_updateStudent_fst spread_amount split: option.splits)

lemma db_updateContribution_empty:
  assumes c0: "db_getContribution d k = Some c0"
  shows "fst (db_updateContribution d k noContributionData) = d"
  using c0 by (simp add: db_updateContribution_def Let_def noContributionData_def)

lemma db_update_consistent:
  assumes wf: "db_wellFormed d" and c: "db_consistent d"
    and c0: "db_getContribution d k = Some c0"
    and sid: "pc_studentId v = None \<or> pc_studentId v = Some (c_studentId c0)"
  shows "db_consistent (fst (db_updateContribution d k v))"
proof (cases "v = noContributionData")
  case True
  with c show ?thesis by (simp add: db_updateContribution_empty [OF c0])
next
  case ne: False
  let ?d' = "fst (db_updateContribution d k v)"
  let ?c' = "spreadContribution c0 v"
  from sid have "\<not> (case pc_studentId v of None \<Rightarrow> False | Some a \<Rightarrow> a \<noteq> c_studentId c0 \<and> dangling d a)"
    by auto
  then have cs: "contributions ?d' = map (\<lambda>r. if c_id r = k then spreadContribution r v else r) (contributions d)"
    by (simp only: db_updateContribution_found(1) [OF c0 ne] if_False)
  note rows = db_updateContribution_found(2) [OF c0 ne]
  from wf have dc: "distinct (map c_id (contributions d))"
    by (simp add: db_wellFormed_def)
  from c0 have f0: "find (\<lambda>r. c_id r = k) (contributions d) = Some c0"
    by (simp add: db_getContribution_def)
  have sid': "c_studentId ?c' = c_studentId c0"
    using sid by (auto simp: spreadContribution_def overwrite_def)
  have amt': "c_amount ?c' = (case pc_amount v of None \<Rightarrow> c_amount c0 | Some n \<Rightarrow> n)"
    by (simp add: spreadContribution_def overwrite_def)
  have ledger: "ledgerSum (contributions ?d') j =
      ledgerSum (contributions d) j + (if c_studentId c0 = Some j then c_amount ?c' - c_amount c0 else 0)" for j
  proof -
    let ?h = "\<lambda>c. if c_studentId c = Some j then c_amount c else 0"
    have "ledgerSum (contributions ?d') j =
        sum_list (map ?h (map (\<lambda>r. if c_id r = k then spreadContribution r v else r) (contributions d)))"
      unfolding cs by (rule ledgerSum_alt)
    also have "\<dots> = sum_list (map ?h (contributions d)) - ?h c0 + ?h ?c'"
      by (rule db_sum_update [OF dc f0])
    also have "\<dots> = ledgerSum (contributions d) j
        + (if c_studentId c0 = Some j then c_amount ?c' - c_amount c0 else 0)"
      by (simp add: ledgerSum_alt sid')
    finally show ?thesis .
  qed
  show ?thesis
  proof (cases "pc_amount v \<noteq> None \<and> pc_amount v \<noteq> Some (c_amount c0)")
    case False
    then have same: "c_amount ?c' = c_amount c0"
      by (auto simp: amt' split: option.splits)
    from False have r: "students ?d' = students d"
      by (simp only: rows if_False)
    show ?thesis
      by (rule db_sameTotals_consistent [OF c _ r]) (simp add: ledger same)
  next
    case True
    then obtain n where n: "pc_amount v = Some n" "n \<noteq> c_amount c0"
      by auto
    show ?thesis
    proof (cases "db_getStudent d (c_studentId c0)")
      case None
      with True have r: "students ?d' = students d"
        by (simp add: rows)
      show ?thesis
      proof (rule db_sameTotals_consistent [OF c _ r])
        fix st
        assume "st \<in> set (students d)"
        with None have "c_studentId c0 \<noteq> Some (s_id st)"
          by (cases "c_studentId c0") (auto simp: find_None_iff)
        then show "ledgerSum (contributions ?d') (s_id st) = ledgerSum (contributions d) (s_id st)"
          by (simp add: ledger)
      qed
    next
      case (Some st0)
      then obtain a where a: "c_studentId c0 = Some a" and st0: "find (\<lambda>r. s_id r = a) (students d) = Some st0"
        by (cases "c_studentId c0") auto
      from find_id [OF st0] have mem: "st0 \<in> set (students d)" and id0: "s_id st0 = a"
        by simp_all
      have old: "s_contributionAmount st0 = Some (ledgerSum (contributions d) a)"
        using db_consistentD [OF c mem] id0 by simp
      let ?f = "\<lambda>r. r\<lparr> s_contributionAmount := Some (orZero (s_contributionAmount st0) + (n - c_amount c0)) \<rparr>"
      have r: "students ?d' = map (\<lambda>r. if s_id r = a then ?f r else r) (students d)"
        using True Some n id0 by (simp add: rows)
      show ?thesis
      proof (rule db_setAmount_consistent [OF c _ _ _ r, where delta = "n - c_amount c0"])
        show "ledgerSum (contributions ?d') j = ledgerSum (contributions d) j + (if j = a then n - c_amount c0 else 0)" for j
          using a n by (auto simp: ledger amt')
        show "orZero (s_contributionAmount st0) + (n - c_amount c0) = ledgerSum (contributions d) a + (n - c_amount c0)"
          by (simp add: old orZero_def)
        show "s_id (?f r) = s_id r \<and> s_contributionAmount (?f r) = Some (orZero (s_contributionAmount st0) + (n - c_amount c0))" for r
          by simp
      qed
    qed
  qed
qed

lemma db_deleteContribution_found:
  assumes c0: "db_getContribution d k = Some c0"
  shows "contributions (fst (db_deleteContribution d k)) = filter (\<lambda>r. c_id r \<noteq> k) (contributions d)"
    and "students (fst (db_deleteContribution d k)) =
           (case db_getStudent d (c_studentId c0) of
              None \<Rightarrow> students d
            | Some st \<Rightarrow>
                if s_contributionAmount st \<noteq> None \<and> s_contributionAmount st \<noteq> Some 0
                then map (\<lambda>r. if s_id r = s_id st
                       then r\<lparr> s_contributionAmount :=
                               Some (max 0 (the (s_contributionAmount st) - c_amount c0)) \<rparr>
                       else r) (students d)
                else students d)"
  using c0
  by (simp_all add: db_deleteContribution_def Let_def db_updateStudent_fst spread_amount split: option.splits)

lemma db_delete_consistent:
  assumes wf: "db_wellFormed d" and c: "db_consistent d"
    and nonneg: "\<forall>c \<in> set (contributions d). 0 \<le> c_amount c"
  shows "db_consistent (fst (db_deleteContribution d k))"
proof (cases "db_getContribution d k")
  case None
  with c show ?thesis by (simp add: db_deleteContribution_def)
next
  case c0: (Some c0)
  let ?d' = "fst (db_deleteContribution d k)"
  note cs = db_deleteContribution_found(1) [OF c0]
  note rows = db_deleteContribution_found(2) [OF c0]
  from wf have dc: "distinct (map c_id (contributions d))"
    by (simp add: db_wellFormed_def)
  from c0 have f0: "find (\<lambda>r. c_id r = k) (contributions d) = Some c0"
    by (simp add: db_getContribution_def)
  from find_id [OF f0] nonneg have nn0: "0 \<le> c_amount c0"
    by simp
  have ledger: "ledgerSum (contributions ?d') j =
      ledgerSum (contributions d) j + (if c_studentId c0 = Some j then - c_amount c0 else 0)" for j
  proof -
    let ?h = "\<lambda>c. if c_studentId c = Some j then c_amount c else 0"
    have "ledgerSum (contributions ?d') j = sum_list (map ?h (filter (\<lambda>r. c_id r \<noteq> k) (contributions d)))"
      unfolding cs by (rule ledgerSum_alt)
    also have "\<dots> = sum_list (map ?h (contributions d)) - ?h c0"
      by (rule db_sum_delete [OF dc f0])
    also have "\<dots> = ledgerSum (contributions d) j
        + (if c_studentId c0 = Some j then - c_amount c0 else 0)"
      by (simp add: ledgerSum_alt)
    finally show ?thesis .
  qed
  show ?thesis
  proof (cases "db_getStudent d (c_studentId c0)")
    case None
    then have r: "students ?d' = students d"
      by (simp add: rows)
    show ?thesis
    proof (rule db_sameTotals_consistent [OF c _ r])
      fix st
      assume "st \<in> set (students d)"
      with None have "c_studentId c0 \<noteq> Some (s_id st)"
        by (cases "c_studentId c0") (auto simp: find_None_iff)
      then show "ledgerSum (contributions ?d') (s_id st) = ledgerSum (contributions d) (s_id st)"
        by (simp add: ledger)
    qed
  next
    case (Some st0)
    then obtain a where a: "c_studentId c0 = Some a" and st0: "find (\<lambda>r. s_id r = a) (students d) = Some st0"
      by (cases "c_studentId c0") auto
    from find_id [OF st0] have mem: "st0 \<in> set (students d)" and id0: "s_id st0 = a"
      by simp_all
    have old: "s_contributionAmount st0 = Some (ledgerSum (contributions d) a)"
      using db_consistentD [OF c mem] id0 by simp
    have "0 \<le> ledgerSum (filter (\<lambda>r. c_id r \<noteq> k) (contributions d)) a"
      using nonneg by (intro ledgerSum_nonneg) simp
    then have "0 \<le> ledgerSum (contributions ?d') a"
      by (simp only: cs)
    then have rest: "0 \<le> ledgerSum (contributions d) a - c_amount c0"
      using a by (simp add: ledger)
    show ?thesis
    proof (cases "ledgerSum (contributions d) a = 0")
      case True
      with rest nn0 have zero: "c_amount c0 = 0"
        by simp
      from True Some old have r: "students ?d' = students d"
        by (simp add: rows)
      show ?thesis
        by (rule db_sameTotals_consistent [OF c _ r]) (simp add: ledger zero)
    next
      case False
      let ?f = "\<lambda>r. r\<lparr> s_contributionAmount := Some (max 0 (the (s_contributionAmount st0) - c_amount c0)) \<rparr>"
      have r: "students ?d' = map (\<lambda>r. if s_id r = a then ?f r else r) (students d)"
        using False Some old id0 by (simp add: rows)
      show ?thesis
      proof (rule db_setAmount_consistent [OF c _ _ _ r, where delta = "- c_amount c0"])
        show "ledgerSum (contributions ?d') j = ledgerSum (contributions d) j + (if j = a then - c_amount c0 else 0)" for j
          using a by (auto simp: ledger)
        show "max 0 (the (s_contributionAmount st0) - c_amount c0) = ledgerSum (contributions d) a + - c_amount c0"
          using rest by (simp add: old)
        show "s_id (?f r) = s_id r \<and> s_contributionAmount (?f r) = Some (max 0 (the (s_contributionAmount st0) - c_amount c0))" for r
          by simp
      qed
    qed
  qed
qed

subsection \<open>The state after a contribution is created or deleted\<close>

lemma create_wellFormed:
  assumes wf: "wellFormed s"
  shows "wellFormed (fst (createContribution now s v))"
proof -
  let ?i = "currentContributionId s"
  from wf have fresh: "?i \<notin> fst ` set (contributionMap s)"
    by (rule wf_fresh)
  have cmwf: "distinct (map fst (contributionMap s @ [(?i, newRow now ?i v)])) \<and>
      (\<forall>p \<in> set (contributionMap s @ [(?i, newRow now ?i v)]).
          c_id (snd p) = fst p \<and> 0 < fst p \<and> fst p < ?i + 1)"
    using wf fresh by (auto simp: wellFormed_def newRow_def)
  show ?thesis
  proof (cases "getStudent s (ic_studentId v)")
    case None
    show ?thesis
      using wf cmwf
      by (simp add: createContribution_absent [OF None] Map_set_fresh [OF fresh] wellFormed_def)
  next
    case (Some st0)
    then obtain a where v: "ic_studentId v = Some a" and st0: "Map_get (studentMap s) a = Some st0"
      by (cases "ic_studentId v") auto
    from wf have d: "distinct (map fst (studentMap s))"
      by (simp add: wellFormed_def)
    from wf st0 have id0: "s_id st0 = a"
      using wf_student by blast
    from wf map_of_SomeD [OF st0] have bounds: "0 < a \<and> a < currentStudentId s"
      by (auto simp: wellFormed_def)
    show ?thesis
      using wf cmwf id0 bounds
      by (auto simp: createContribution_present [OF wf st0 v] wellFormed_def set_Map_set [OF d]
            distinct_update)
  qed
qed

lemma create_student_after:
  assumes wf: "wellFormed s" and st: "Map_get (studentMap s) a = Some st" and v: "ic_studentId v = Some a"
  shows "Map_get (studentMap (fst (createContribution now s v))) a =
           Some (st\<lparr> s_contributionAmount := Some (orZero (s_contributionAmount st) + ic_amount v),
                      s_paidStatus := (if (\<forall>c \<in> set (Map_values (contributionMap s)). c_studentId c \<noteq> Some a)
                                           \<and> s_paidStatus st \<noteq> Some paid
                                        then Some paid else s_paidStatus st) \<rparr>)"
    and "Map_values (contributionMap (fst (createContribution now s v))) =
           Map_values (contributionMap s) @ [newRow now (currentContributionId s) v]"
  by (simp_all add: createContribution_present [OF wf st v] update_conv')

lemma find_map_same_id:
  assumes "\<And>r. s_id (f r) = s_id r"
  shows "find (\<lambda>r. s_id r = a) (map (\<lambda>r. if s_id r = a then f r else r) rows) =
           map_option f (find (\<lambda>r. s_id r = a) rows)"
  using assms by (induction rows) auto

lemma db_create_student_after:
  assumes wf: "db_wellFormed d" and st: "find (\<lambda>r. s_id r = a) (students d) = Some st" and v: "ic_studentId v = Some a"
  shows "find (\<lambda>r. s_id r = a) (students (fst (db_createContribution now d v))) =
           Some (st\<lparr> s_contributionAmount := Some (orZero (s_contributionAmount st) + ic_amount v),
                      s_paidStatus := (if (\<forall>c \<in> set (contributions d). c_studentId c \<noteq> Some a)
                                           \<and> s_paidStatus st \<noteq> Some paid
                                        then Some paid else s_paidStatus st) \<rparr>)"
    and "contributions (fst (db_createContribution now d v)) =
           contributions d @ [newRow now (contributions_id_seq d) v]"
proof -
  from find_id [OF st] wf have pos: "a \<noteq> 0"
    by (auto simp: db_wellFormed_def)
  let ?f = "\<lambda>r. r\<lparr> s_contributionAmount := Some (orZero (s_contributionAmount st) + ic_amount v),
                  s_paidStatus := (if (\<forall>c \<in> set (contributions d). c_studentId c \<noteq> Some a)
                                      \<and> s_paidStatus st \<noteq> Some paid
                                   then Some paid else s_paidStatus r) \<rparr>"
  have "find (\<lambda>r. s_id r = a) (map (\<lambda>r. if s_id r = a then ?f r else r) (students d)) =
          map_option ?f (find (\<lambda>r. s_id r = a) (students d))"
    by (rule find_map_same_id) simp
  then show "find (\<lambda>r. s_id r = a) (students (fst (db_createContribution now d v))) =
           Some (st\<lparr> s_contributionAmount := Some (orZero (s_contributionAmount st) + ic_amount v),
                      s_paidStatus := (if (\<forall>c \<in> set (contributions d). c_studentId c \<noteq> Some a)
                                           \<and> s_paidStatus st \<noteq> Some paid
                                        then Some paid else s_paidStatus st) \<rparr>)"
    by (simp add: db_createContribution_present [OF st v pos] st)
  show "contributions (fst (db_createContribution now d v)) =
           contributions d @ [newRow now (contributions_id_seq d) v]"
    by (simp add: db_createContribution_present [OF st v pos])
qed

lemma db_create_wellFormed:
  assumes wf: "db_wellFormed d"
  shows "db_wellFormed (fst (db_createContribution now d v))"
proof -
  let ?i = "contributions_id_seq d"
  have cswf: "distinct (map c_id (contributions d @ [newRow now ?i v])) \<and>
      (\<forall>r \<in> set (contributions d @ [newRow now ?i v]). 0 < c_id r \<and> c_id r < ?i + 1)"
    using wf by (auto simp: db_wellFormed_def newRow_def)
  show ?thesis
  proof (cases "db_getStudent d (ic_studentId v)")
    case None
    show ?thesis
    proof (cases "ic_studentId v")
      case null: None
      show ?thesis
        using wf cswf by (simp add: db_createContribution_absent [OF null] db_wellFormed_def)
    next
      case (Some a)
      with None have "find (\<lambda>r. s_id r = a) (students d) = None"
        by simp
      from db_createContribution_dangling [OF Some this] show ?thesis
        using wf by (auto simp: db_wellFormed_def)
    qed
  next
    case (Some st0)
    then obtain a where v: "ic_studentId v = Some a" and st0: "find (\<lambda>r. s_id r = a) (students d) = Some st0"
      by (cases "ic_studentId v") auto
    from find_id [OF st0] wf have pos: "a \<noteq> 0"
      by (auto simp: db_wellFormed_def)
    have ids: "map s_id (map (\<lambda>r. if s_id r = a then f r else r) rows) = map s_id rows"
      if "\<And>r. s_id (f r) = s_id r" for f :: "student \<Rightarrow> student" and rows
      using that by (induction rows) auto
    show ?thesis
      using wf cswf
      by (auto simp: db_createContribution_present [OF st0 v pos] db_wellFormed_def ids simp del: map_map)
  qed
qed

lemma delete_student_after:
  assumes wf: "wellFormed s" and c: "Map_get (contributionMap s) k = Some c"
    and a: "c_studentId c = Some a" and st: "Map_get (studentMap s) a = Some st"
  shows "Map_get (studentMap (fst (deleteContribution s k))) a =
           Some (st\<lparr> s_contributionAmount := Some (max 0 (orZero (s_contributionAmount st) - c_amount c)) \<rparr>)"
proof -
  from wf st have "s_id st = a"
    using wf_student by blast
  then show ?thesis
    using c a st
    by (simp add: deleteContribution_def Let_def updateStudent_found [OF st] spread_amount update_conv')
qed

lemma db_delete_student_after:
  assumes c: "db_getContribution d k = Some c"
    and a: "c_studentId c = Some a" and st: "find (\<lambda>r. s_id r = a) (students d) = Some st"
  shows "find (\<lambda>r. s_id r = a) (students (fst (db_deleteContribution d k))) =
           Some (if s_contributionAmount st = None \<or> s_contributionAmount st = Some 0 then st
                 else st\<lparr> s_contributionAmount := Some (max 0 (the (s_contributionAmount st) - c_amount c)) \<rparr>)"
proof -
  from find_id [OF st] have id: "s_id st = a"
    by simp
  let ?f = "\<lambda>r. r\<lparr> s_contributionAmount := Some (max 0 (the (s_contributionAmount st) - c_amount c)) \<rparr>"
  have "find (\<lambda>r. s_id r = a) (map (\<lambda>r. if s_id r = a then ?f r else r) (students d)) =
          map_option ?f (find (\<lambda>r. s_id r = a) (students d))"
    by (rule find_map_same_id) simp
  then show ?thesis
    using a st id by (simp add: db_deleteContribution_found(2) [OF c])
qed

subsection \<open>The contribution methods keep a store well-formed\<close>

lemma new_wellFormed: "wellFormed newMemStorage" "db_wellFormed newDbStorage"
  by (simp_all add: wellFormed_def db_wellFormed_def newMemStorage_def newDbStorage_def)

lemma students_wellFormed:
  assumes wf: "wellFormed s"
    and sm: "sm' = studentMap s \<or>
      (\<exists>a st0 st'. Map_get (studentMap s) a = Some st0 \<and> s_id st' = s_id st0 \<and>
          sm' = Map_set (studentMap s) a st')"
  shows "wellFormed (s\<lparr> studentMap := sm' \<rparr>)"
proof -
  from sm consider "sm' = studentMap s"
    | a st0 st' where "Map_get (studentMap s) a = Some st0" "s_id st' = s_id st0"
        "sm' = Map_set (studentMap s) a st'"
    by blast
  then show ?thesis
  proof cases
    case 1
    with wf show ?thesis by (simp add: wellFormed_def)
  next
    case 2
    from wf have d: "distinct (map fst (studentMap s))"
      by (simp add: wellFormed_def)
    from wf 2(1) have "s_id st0 = a"
      using wf_student by blast
    moreover from wf map_of_SomeD [OF 2(1)] have "0 < a \<and> a < currentStudentId s"
      by (auto simp: wellFormed_def)
    ultimately show ?thesis
      using wf 2(2) unfolding 2(3)
      by (auto simp: wellFormed_def set_Map_set [OF d] distinct_update)
  qed
qed

lemma contributions_set_wellFormed:
  assumes wf: "wellFormed s" and c: "Map_get (contributionMap s) k = Some c" and id: "c_id c' = c_id c"
  shows "wellFormed (s\<lparr> contributionMap := Map_set (contributionMap s) k c' \<rparr>)"
proof -
  from wf have d: "distinct (map fst (contributionMap s))"
    by (simp add: wellFormed_def)
  from wf map_of_SomeD [OF c] have "c_id c = k \<and> 0 < k \<and> k < currentContributionId s"
    by (auto simp: wellFormed_def)
  then show ?thesis
    using wf id by (auto simp: wellFormed_def set_Map_set [OF d] distinct_update)
qed

lemma contributions_delete_wellFormed:
  assumes wf: "wellFormed s"
  shows "wellFormed (s\<lparr> contributionMap := Map_delete (contributionMap s) k \<rparr>)"
proof -
  have "set (Map_delete (contributionMap s) k) \<subseteq> set (contributionMap s)"
    by (auto simp: AList.delete_eq)
  moreover from wf have "distinct (map fst (Map_delete (contributionMap s) k))"
    by (simp add: wellFormed_def distinct_delete)
  ultimately show ?thesis
    using wf by (auto simp: wellFormed_def)
qed

lemma update_wellFormed:
  assumes wf: "wellFormed s"
  shows "wellFormed (fst (updateContribution s k v))"
proof (cases "Map_get (contributionMap s) k")
  case None
  with wf show ?thesis by (simp add: updateContribution_def)
next
  case (Some c)
  let ?c' = "spreadContribution c v"
  have id: "c_id ?c' = c_id c"
    by (simp add: spreadContribution_def)
  have "\<exists>sm'. fst (updateContribution s k v) =
        s\<lparr> studentMap := sm', contributionMap := Map_set (contributionMap s) k ?c' \<rparr> \<and>
      (sm' = studentMap s \<or>
        (\<exists>a st0 st'. Map_get (studentMap s) a = Some st0 \<and> s_id st' = s_id st0 \<and>
            sm' = Map_set (studentMap s) a st'))"
  proof (cases "pc_amount v \<noteq> None \<and> pc_amount v \<noteq> Some (c_amount c)")
    case False
    with Some have "fst (updateContribution s k v) =
        s\<lparr> studentMap := studentMap s, contributionMap := Map_set (contributionMap s) k ?c' \<rparr>"
      by (auto simp: updateContribution_def Let_def)
    then show ?thesis by blast
  next
    case True
    show ?thesis
    proof (cases "getStudent s (c_studentId c)")
      case None
      with True Some have "fst (updateContribution s k v) =
          s\<lparr> studentMap := studentMap s, contributionMap := Map_set (contributionMap s) k ?c' \<rparr>"
        by (auto simp: updateContribution_def Let_def)
      then show ?thesis by blast
    next
      case st: (Some st0)
      then obtain a where a: "c_studentId c = Some a" and st0: "Map_get (studentMap s) a = Some st0"
        by (cases "c_studentId c") auto
      from wf st0 have id0: "s_id st0 = a"
        using wf_student by blast
      let ?st' = "st0\<lparr> s_contributionAmount :=
          Some (orZero (s_contributionAmount st0) + (the (pc_amount v) - c_amount c)) \<rparr>"
      have "fst (updateContribution s k v) =
          s\<lparr> studentMap := Map_set (studentMap s) a ?st',
              contributionMap := Map_set (contributionMap s) k ?c' \<rparr>"
        using Some True a st0 id0
        by (simp add: updateContribution_def Let_def updateStudent_found [OF st0] spread_amount)
      moreover have "s_id ?st' = s_id st0"
        by simp
      ultimately show ?thesis
        using st0 by blast
    qed
  qed
  then obtain sm' where eq: "fst (updateContribution s k v) =
        s\<lparr> studentMap := sm', contributionMap := Map_set (contributionMap s) k ?c' \<rparr>"
    and sm: "sm' = studentMap s \<or>
        (\<exists>a st0 st'. Map_get (studentMap s) a = Some st0 \<and> s_id st' = s_id st0 \<and>
            sm' = Map_set (studentMap s) a st')"
    by blast
  have wf1: "wellFormed (s\<lparr> studentMap := sm' \<rparr>)"
    by (rule students_wellFormed [OF wf sm])
  have "wellFormed ((s\<lparr> studentMap := sm' \<rparr>)
      \<lparr> contributionMap := Map_set (contributionMap (s\<lparr> studentMap := sm' \<rparr>)) k ?c' \<rparr>)"
    by (rule contributions_set_wellFormed [OF wf1 _ id]) (simp add: Some)
  then show ?thesis
    by (simp add: eq)
qed

lemma delete_wellFormed:
  assumes wf: "wellFormed s"
  shows "wellFormed (fst (deleteContribution s k))"
proof (cases "Map_get (contributionMap s) k")
  case None
  with wf show ?thesis by (simp add: deleteContribution_def)
next
  case (Some c)
  have "\<exists>sm'. fst (deleteContribution s k) =
        s\<lparr> studentMap := sm', contributionMap := Map_delete (contributionMap s) k \<rparr> \<and>
      (sm' = studentMap s \<or>
        (\<exists>a st0 st'. Map_get (studentMap s) a = Some st0 \<and> s_id st' = s_id st0 \<and>
            sm' = Map_set (studentMap s) a st'))"
  proof (cases "getStudent s (c_studentId c)")
    case None
    with Some have "fst (deleteContribution s k) =
        s\<lparr> studentMap := studentMap s, contributionMap := Map_delete (contributionMap s) k \<rparr>"
      by (auto simp: deleteContribution_def Let_def)
    then show ?thesis by blast
  next
    case st: (Some st0)
    then obtain a where a: "c_studentId c = Some a" and st0: "Map_get (studentMap s) a = Some st0"
      by (cases "c_studentId c") auto
    from wf st0 have id0: "s_id st0 = a"
      using wf_student by blast
    let ?st' = "st0\<lparr> s_contributionAmount :=
        Some (max 0 (orZero (s_contributionAmount st0) - c_amount c)) \<rparr>"
    have "fst (deleteContribution s k) =
        s\<lparr> studentMap := Map_set (studentMap s) a ?st',
            contributionMap := Map_delete (contributionMap s) k \<rparr>"
      using Some a st0 id0
      by (simp add: deleteContribution_def Let_def updateStudent_found [OF st0] spread_amount)
    moreover have "s_id ?st' = s_id st0"
      by simp
    ultimately show ?thesis
      using st0 by blast
  qed
  then obtain sm' where eq: "fst (deleteContribution s k) =
        s\<lparr> studentMap := sm', contributionMap := Map_delete (contributionMap s) k \<rparr>"
    and sm: "sm' = studentMap s \<or>
        (\<exists>a st0 st'. Map_get (studentMap s) a = Some st0 \<and> s_id st' = s_id st0 \<and>
            sm' = Map_set (studentMap s) a st')"
    by blast
  have wf1: "wellFormed (s\<lparr> studentMap := sm' \<rparr>)"
    by (rule students_wellFormed [OF wf sm])
  have "wellFormed ((s\<lparr> studentMap := sm' \<rparr>)
      \<lparr> contributionMap := Map_delete (contributionMap (s\<lparr> studentMap := sm' \<rparr>)) k \<rparr>)"
    by (rule contributions_delete_wellFormed [OF wf1])
  then show ?thesis
    by (simp add: eq)
qed

lemma db_wellFormed_ids:
  assumes wf: "db_wellFormed d"
    and sids: "map s_id (students d') = map s_id (students d)"
    and dc: "distinct (map c_id (contributions d'))"
    and cids: "set (map c_id (contributions d')) \<subseteq> set (map c_id (contributions d))"
    and seqs: "students_id_seq d' = students_id_seq d" "contributions_id_seq d' = contributions_id_seq d"
  shows "db_wellFormed d'"
proof -
  have s: "0 < s_id r \<and> s_id r < students_id_seq d" if "r \<in> set (students d')" for r
  proof -
    from that have "s_id r \<in> set (map s_id (students d'))"
      by simp
    then have "s_id r \<in> set (map s_id (students d))"
      by (simp only: sids)
    then obtain r' where "r' \<in> set (students d)" "s_id r' = s_id r"
      by auto
    with wf show ?thesis
      by (auto simp: db_wellFormed_def)
  qed
  have c: "0 < c_id r \<and> c_id r < contributions_id_seq d" if "r \<in> set (contributions d')" for r
  proof -
    from that have "c_id r \<in> set (map c_id (contributions d'))"
      by simp
    with cids have "c_id r \<in> set (map c_id (contributions d))"
      by blast
    then obtain r' where "r' \<in> set (contributions d)" "c_id r' = c_id r"
      by auto
    with wf show ?thesis
      by (auto simp: db_wellFormed_def)
  qed
  from wf have "distinct (map s_id (students d'))"
    by (simp add: db_wellFormed_def sids)
  with wf dc s c show ?thesis
    by (simp add: db_wellFormed_def seqs)
qed

lemma db_update_wellFormed:
  assumes wf: "db_wellFormed d"
  shows "db_wellFormed (fst (db_updateContribution d k v))"
proof (cases "db_getContribution d k")
  case None
  with wf show ?thesis by (simp add: db_updateContribution_def)
next
  case c: (Some c)
  show ?thesis
  proof (cases "v = noContributionData")
    case True
    with wf show ?thesis by (simp add: db_updateContribution_empty [OF c])
  next
    case False
    let ?d' = "fst (db_updateContribution d k v)"
    note cs = db_updateContribution_found(1) [OF c False]
    note rows = db_updateContribution_found(2) [OF c False]
    have idc: "map c_id (map (\<lambda>r. if c_id r = k then spreadContribution r v else r) rs) = map c_id rs" for rs
      by (induction rs) (auto simp: spreadContribution_def)
    have ids: "map s_id (map (\<lambda>r. if s_id r = a then r\<lparr> s_contributionAmount := x \<rparr> else r) rs) = map s_id rs"
      for a x rs
      by (induction rs) auto
    show ?thesis
    proof (rule db_wellFormed_ids [OF wf])
      show "map s_id (students ?d') = map s_id (students d)"
        unfolding rows by (simp add: ids split: option.splits del: map_map)
      show "distinct (map c_id (contributions ?d'))"
        using wf by (simp add: cs idc db_wellFormed_def del: map_map)
      show "set (map c_id (contributions ?d')) \<subseteq> set (map c_id (contributions d))"
        by (simp add: cs idc del: map_map set_map)
      show "students_id_seq ?d' = students_id_seq d" "contributions_id_seq ?d' = contributions_id_seq d"
        using c False
        by (simp_all add: db_updateContribution_def Let_def db_updateStudent_fst split: option.splits)
    qed
  qed
qed

lemma db_delete_wellFormed:
  assumes wf: "db_wellFormed d"
  shows "db_wellFormed (fst (db_deleteContribution d k))"
proof (cases "db_getContribution d k")
  case None
  with wf show ?thesis by (simp add: db_deleteContribution_def)
next
  case c: (Some c)
  let ?d' = "fst (db_deleteContribution d k)"
  note cs = db_deleteContribution_found(1) [OF c]
  note rows = db_deleteContribution_found(2) [OF c]
  have ids: "map s_id (map (\<lambda>r. if s_id r = a then r\<lparr> s_contributionAmount := x \<rparr> else r) rs) = map s_id rs"
    for a x rs
    by (induction rs) auto
  show ?thesis
  proof (rule db_wellFormed_ids [OF wf])
    show "map s_id (students ?d') = map s_id (students d)"
      unfolding rows by (simp add: ids split: option.splits del: map_map)
    show "distinct (map c_id (contributions ?d'))"
      unfolding cs using wf by (simp add: db_wellFormed_def distinct_map_filter)
    show "set (map c_id (contributions ?d')) \<subseteq> set (map c_id (contributions d))"
      unfolding cs by auto
    show "students_id_seq ?d' = students_id_seq d" "contributions_id_seq ?d' = contributions_id_seq d"
      using c
      by (simp_all add: db_deleteContribution_def Let_def db_updateStudent_fst split: option.splits)
  qed
qed

subsection \<open>Bulk import\<close>



lemma spreadStudent_id [simp]: "s_id (spreadStudent st v) = s_id st"
  by (simp add: spreadStudent_def)















lemma spreadStudent_createdAt [simp]: "s_createdAt (spreadStudent st v) = s_createdAt st"
  by (simp add: spreadStudent_def)




section \<open>Absent contribution ids\<close>

text \<open>
  C5. \<open>updateContribution\<close> with an id that is not in the store returns the absent result
  and \<open>deleteContribution\<close> with such an id returns \<open>false\<close>; the lookup is the first
  statement of both methods, so the store they leave behind is the store they were given,
  attendees and contributions included. This holds for the in-memory and for the durable
  store.
\<close>

theorem absent_contribution_id_unchanged:
  "(Map_get (contributionMap s) k = None \<longrightarrow>
      updateContribution s k data = (s, None) \<and> deleteContribution s k = (s, False)) \<and>
   (db_getContribution d k = None \<longrightarrow>
      db_updateContribution d k data = (d, Inr None) \<and> db_deleteContribution d k = (d, False))"
  by (simp add: updateContribution_def deleteContribution_def
        db_updateContribution_def db_deleteContribution_def)

theorem absent_contribution_id_unchanged_witness:
  "Map_get (contributionMap exMem) 7 = None \<and>
   updateContribution exMem 7 (noContributionData\<lparr> pc_amount := Some 900 \<rparr>) = (exMem, None) \<and>
   deleteContribution exMem 7 = (exMem, False) \<and>
   db_getContribution exDb 7 = None \<and>
   db_updateContribution exDb 7 (noContributionData\<lparr> pc_amount := Some 900 \<rparr>) = (exDb, Inr None) \<and>
   db_deleteContribution exDb 7 = (exDb, False)"
proof -
  have m: "Map_get (contributionMap exMem) 7 = None"
    by (simp add: exMem_def)
  have d: "db_getContribution exDb 7 = None"
    by (simp add: db_getContribution_def exDb_def gift500_def gift300_def)
  show ?thesis
    using m d
      absent_contribution_id_unchanged [of exMem 7 "noContributionData\<lparr> pc_amount := Some 900 \<rparr>" exDb]
    by blast
qed

section \<open>The ledger invariant\<close>

text \<open>
  C1 (amended). Let every attendee's \<open>contributionAmount\<close> equal the sum of the ledger rows
  that reference the attendee, in a well-formed store. Then the same holds after
  \<open>createContribution\<close>; after \<open>updateContribution\<close> when the payload keeps the attendee of
  the row (no \<open>studentId\<close> key, or the \<open>studentId\<close> the row has); and after
  \<open>deleteContribution\<close> when no ledger amount is negative. This holds for the in-memory
  and for the durable store.
\<close>

theorem ledger_consistency_preserved:
  "(wellFormed s \<and> consistent s \<longrightarrow>
      consistent (fst (createContribution now s v)) \<and>
      (keepsAttendee (Map_get (contributionMap s) k) data \<longrightarrow>
         consistent (fst (updateContribution s k data))) \<and>
      ((\<forall>c \<in> set (Map_values (contributionMap s)). 0 \<le> c_amount c) \<longrightarrow>
         consistent (fst (deleteContribution s k)))) \<and>
   (db_wellFormed d \<and> db_consistent d \<longrightarrow>
      db_consistent (fst (db_createContribution now d v)) \<and>
      (keepsAttendee (db_getContribution d k) data \<longrightarrow>
         db_consistent (fst (db_updateContribution d k data))) \<and>
      ((\<forall>c \<in> set (contributions d). 0 \<le> c_amount c) \<longrightarrow>
         db_consistent (fst (db_deleteContribution d k))))"
proof -
  have mu: "consistent (fst (updateContribution s k data))"
    if "wellFormed s" "consistent s" "keepsAttendee (Map_get (contributionMap s) k) data"
  proof (cases "Map_get (contributionMap s) k")
    case None
    with that show ?thesis by (simp add: updateContribution_def)
  next
    case (Some c0)
    with that show ?thesis
      by (intro update_consistent [where ?c0.0 = c0]) (simp_all add: keepsAttendee_def)
  qed
  have du: "db_consistent (fst (db_updateContribution d k data))"
    if "db_wellFormed d" "db_consistent d" "keepsAttendee (db_getContribution d k) data"
  proof (cases "db_getContribution d k")
    case None
    with that show ?thesis by (simp add: db_updateContribution_def)
  next
    case (Some c0)
    with that show ?thesis
      by (intro db_update_consistent [where ?c0.0 = c0]) (simp_all add: keepsAttendee_def)
  qed
  show ?thesis
    using mu du create_consistent delete_consistent db_create_consistent db_delete_consistent
    by blast
qed

text \<open>The theorem at the example stores.\<close>

theorem ledger_consistency_preserved_witness:
  "wellFormed exMem \<and> consistent exMem \<and>
   consistent (fst (createContribution 7 exMem
      \<lparr> ic_studentId = Some 2, ic_amount = 250, ic_date = 20010, ic_recordedBy = Some 1 \<rparr>)) \<and>
   keepsAttendee (Map_get (contributionMap exMem) 2) (noContributionData\<lparr> pc_amount := Some 350 \<rparr>) \<and>
   consistent (fst (updateContribution exMem 2 (noContributionData\<lparr> pc_amount := Some 350 \<rparr>))) \<and>
   list_all (\<lambda>c. 0 \<le> c_amount c) (Map_values (contributionMap exMem)) \<and>
   consistent (fst (deleteContribution exMem 2)) \<and>
   db_wellFormed exDb \<and> db_consistent exDb \<and>
   db_consistent (fst (db_createContribution 7 exDb
      \<lparr> ic_studentId = Some 2, ic_amount = 250, ic_date = 20010, ic_recordedBy = Some 1 \<rparr>)) \<and>
   keepsAttendee (db_getContribution exDb 2) (noContributionData\<lparr> pc_amount := Some 350 \<rparr>) \<and>
   db_consistent (fst (db_updateContribution exDb 2 (noContributionData\<lparr> pc_amount := Some 350 \<rparr>))) \<and>
   list_all (\<lambda>c. 0 \<le> c_amount c) (contributions exDb) \<and>
   db_consistent (fst (db_deleteContribution exDb 2))"
proof -
  have h1: "wellFormed exMem \<and> consistent exMem"
    by (simp add: wellFormed_def consistent_def ledgerSum_def exMem_def asha_def bala_def gift500_def gift300_def)
  have h2: "keepsAttendee (Map_get (contributionMap exMem) 2) (noContributionData\<lparr> pc_amount := Some 350 \<rparr>)"
    by (simp add: keepsAttendee_def exMem_def noContributionData_def)
  have h3: "\<forall>c \<in> set (Map_values (contributionMap exMem)). 0 \<le> c_amount c"
    by (simp add: exMem_def gift500_def gift300_def)
  have h4: "db_wellFormed exDb \<and> db_consistent exDb"
    by (simp add: db_wellFormed_def db_consistent_def ledgerSum_def exDb_def asha_def bala_def gift500_def gift300_def)
  have h5: "keepsAttendee (db_getContribution exDb 2) (noContributionData\<lparr> pc_amount := Some 350 \<rparr>)"
    by (simp add: keepsAttendee_def db_getContribution_def exDb_def noContributionData_def gift500_def gift300_def)
  have h6: "\<forall>c \<in> set (contributions exDb). 0 \<le> c_amount c"
    by (simp add: exDb_def gift500_def gift300_def)
  have h7: "list_all (\<lambda>c. 0 \<le> c_amount c) (Map_values (contributionMap exMem)) \<and>
      list_all (\<lambda>c. 0 \<le> c_amount c) (contributions exDb)"
    by (simp add: exMem_def exDb_def gift500_def gift300_def)
  show ?thesis
    using h1 h2 h3 h4 h5 h6 h7
      ledger_consistency_preserved [of exMem 7
        "\<lparr> ic_studentId = Some 2, ic_amount = 250, ic_date = 20010, ic_recordedBy = Some 1 \<rparr>"
        2 "noContributionData\<lparr> pc_amount := Some 350 \<rparr>" exDb]
    by blast
qed

text \<open>
  The claim as stated, for every update and every delete, fails. In the example store an
  update that moves contribution \<open>1\<close> from attendee \<open>1\<close> to attendee \<open>2\<close> leaves both totals as
  they were. In a store whose ledger holds a negative amount (attendee \<open>4\<close>: \<open>5\<close> and
  \<open>-3\<close>, total \<open>2\<close>), deleting the row of \<open>5\<close> stores \<open>max(0, 2 - 5) = 0\<close> while the ledger
  sums to \<open>-3\<close>.
\<close>

theorem ledger_consistency_counterexample:
  "wellFormed exMem \<and> consistent exMem \<and>
   \<not> consistent (fst (updateContribution exMem 1 (noContributionData\<lparr> pc_studentId := Some (Some 2) \<rparr>))) \<and>
   wellFormed exRefund \<and> consistent exRefund \<and>
   \<not> consistent (fst (deleteContribution exRefund 1))"
  by (simp add: wellFormed_def consistent_def ledgerSum_def updateContribution_def deleteContribution_def
        updateStudent_def spread_amount spreadContribution_def overwrite_def noContributionData_def orZero_def
        Let_def exMem_def exRefund_def asha_def bala_def dev_def gift500_def gift300_def paid5_def refund3_def)

section \<open>The first payment\<close>

text \<open>
  C3. In a well-formed store, let an attendee have \<open>paidStatus = not_paid\<close> and no ledger row.
  One \<open>createContribution\<close> for the attendee sets \<open>paidStatus\<close> to \<open>paid\<close>, and a second one
  leaves \<open>paidStatus\<close> as the first left it. More generally, a \<open>createContribution\<close> for an
  attendee who already has a ledger row leaves \<open>paidStatus\<close> unchanged, whatever it is. This
  holds for the in-memory and for the durable store.
\<close>

theorem first_payment_transition:
  "(wellFormed s \<and> Map_get (studentMap s) a = Some st \<and> s_paidStatus st = Some not_paid \<and>
    (\<forall>c \<in> set (Map_values (contributionMap s)). c_studentId c \<noteq> Some a) \<and>
    ic_studentId v1 = Some a \<and> ic_studentId v2 = Some a \<longrightarrow>
      (let s1 = fst (createContribution now1 s v1); s2 = fst (createContribution now2 s1 v2)
       in map_option s_paidStatus (Map_get (studentMap s1) a) = Some (Some paid) \<and>
          map_option s_paidStatus (Map_get (studentMap s2) a) =
            map_option s_paidStatus (Map_get (studentMap s1) a))) \<and>
   (wellFormed s \<and> Map_get (studentMap s) a = Some st \<and>
    (\<exists>c \<in> set (Map_values (contributionMap s)). c_studentId c = Some a) \<and> ic_studentId v1 = Some a \<longrightarrow>
      map_option s_paidStatus (Map_get (studentMap (fst (createContribution now1 s v1))) a) =
        Some (s_paidStatus st)) \<and>
   (db_wellFormed d \<and> db_getStudent d (Some a) = Some st \<and> s_paidStatus st = Some not_paid \<and>
    (\<forall>c \<in> set (contributions d). c_studentId c \<noteq> Some a) \<and>
    ic_studentId v1 = Some a \<and> ic_studentId v2 = Some a \<longrightarrow>
      (let d1 = fst (db_createContribution now1 d v1); d2 = fst (db_createContribution now2 d1 v2)
       in map_option s_paidStatus (db_getStudent d1 (Some a)) = Some (Some paid) \<and>
          map_option s_paidStatus (db_getStudent d2 (Some a)) =
            map_option s_paidStatus (db_getStudent d1 (Some a)))) \<and>
   (db_wellFormed d \<and> db_getStudent d (Some a) = Some st \<and>
    (\<exists>c \<in> set (contributions d). c_studentId c = Some a) \<and> ic_studentId v1 = Some a \<longrightarrow>
      map_option s_paidStatus (db_getStudent (fst (db_createContribution now1 d v1)) (Some a)) =
        Some (s_paidStatus st))"
proof -
  have mem1: "map_option s_paidStatus (Map_get (studentMap s1) a) = Some (Some paid) \<and>
      map_option s_paidStatus (Map_get (studentMap s2) a) = map_option s_paidStatus (Map_get (studentMap s1) a)"
    if wf: "wellFormed s" and st: "Map_get (studentMap s) a = Some st" and np: "s_paidStatus st = Some not_paid"
      and none: "\<forall>c \<in> set (Map_values (contributionMap s)). c_studentId c \<noteq> Some a"
      and v1: "ic_studentId v1 = Some a" and v2: "ic_studentId v2 = Some a"
      and s1: "s1 = fst (createContribution now1 s v1)" and s2: "s2 = fst (createContribution now2 s1 v2)"
    for s1 s2
  proof -
    let ?st1 = "st\<lparr> s_contributionAmount := Some (orZero (s_contributionAmount st) + ic_amount v1),
                     s_paidStatus := Some paid \<rparr>"
    have a1: "Map_get (studentMap s1) a = Some ?st1"
      using create_student_after(1) [OF wf st v1, of now1] none np by (simp add: s1)
    have l1: "Map_values (contributionMap s1) =
        Map_values (contributionMap s) @ [newRow now1 (currentContributionId s) v1]"
      unfolding s1 by (rule create_student_after(2) [OF wf st v1])
    have wf1: "wellFormed s1"
      unfolding s1 by (rule create_wellFormed [OF wf])
    have "\<not> (\<forall>c \<in> set (Map_values (contributionMap s1)). c_studentId c \<noteq> Some a)"
      using v1 unfolding l1 by (simp add: newRow_def)
    then have "map_option s_paidStatus (Map_get (studentMap s2) a) = Some (Some paid)"
      using create_student_after(1) [OF wf1 a1 v2, of now2] by (simp add: s2)
    with a1 show ?thesis by simp
  qed
  have mem2: "map_option s_paidStatus (Map_get (studentMap (fst (createContribution now1 s v1))) a) =
        Some (s_paidStatus st)"
    if wf: "wellFormed s" and st: "Map_get (studentMap s) a = Some st"
      and some: "\<exists>c \<in> set (Map_values (contributionMap s)). c_studentId c = Some a"
      and v1: "ic_studentId v1 = Some a"
  proof -
    from some have "\<not> (\<forall>c \<in> set (Map_values (contributionMap s)). c_studentId c \<noteq> Some a)"
      by blast
    then show ?thesis
      using some create_student_after(1) [OF wf st v1, of now1] by auto
  qed
  have db1: "map_option s_paidStatus (db_getStudent d1 (Some a)) = Some (Some paid) \<and>
      map_option s_paidStatus (db_getStudent d2 (Some a)) = map_option s_paidStatus (db_getStudent d1 (Some a))"
    if wf: "db_wellFormed d" and st: "db_getStudent d (Some a) = Some st" and np: "s_paidStatus st = Some not_paid"
      and none: "\<forall>c \<in> set (contributions d). c_studentId c \<noteq> Some a"
      and v1: "ic_studentId v1 = Some a" and v2: "ic_studentId v2 = Some a"
      and d1: "d1 = fst (db_createContribution now1 d v1)" and d2: "d2 = fst (db_createContribution now2 d1 v2)"
    for d1 d2
  proof -
    from st have st': "find (\<lambda>r. s_id r = a) (students d) = Some st"
      by simp
    let ?st1 = "st\<lparr> s_contributionAmount := Some (orZero (s_contributionAmount st) + ic_amount v1),
                     s_paidStatus := Some paid \<rparr>"
    have a1: "find (\<lambda>r. s_id r = a) (students d1) = Some ?st1"
      using db_create_student_after(1) [OF wf st' v1, of now1] none np by (simp add: d1)
    have l1: "contributions d1 = contributions d @ [newRow now1 (contributions_id_seq d) v1]"
      unfolding d1 by (rule db_create_student_after(2) [OF wf st' v1])
    have wf1: "db_wellFormed d1"
      unfolding d1 by (rule db_create_wellFormed [OF wf])
    have "\<not> (\<forall>c \<in> set (contributions d1). c_studentId c \<noteq> Some a)"
      using v1 unfolding l1 by (simp add: newRow_def)
    then have "map_option s_paidStatus (find (\<lambda>r. s_id r = a) (students d2)) = Some (Some paid)"
      using db_create_student_after(1) [OF wf1 a1 v2, of now2] by (simp add: d2)
    with a1 show ?thesis by simp
  qed
  have db2: "map_option s_paidStatus (db_getStudent (fst (db_createContribution now1 d v1)) (Some a)) =
        Some (s_paidStatus st)"
    if wf: "db_wellFormed d" and st: "db_getStudent d (Some a) = Some st"
      and some: "\<exists>c \<in> set (contributions d). c_studentId c = Some a"
      and v1: "ic_studentId v1 = Some a"
  proof -
    from st have st': "find (\<lambda>r. s_id r = a) (students d) = Some st"
      by simp
    from some have "\<not> (\<forall>c \<in> set (contributions d). c_studentId c \<noteq> Some a)"
      by blast
    then show ?thesis
      using some db_create_student_after(1) [OF wf st' v1, of now1] by auto
  qed
  show ?thesis
    using mem1 mem2 db1 db2 by (simp add: Let_def)
qed

text \<open>The theorem at the example stores, for attendee \<open>2\<close> (no ledger row, \<open>not_paid\<close>) and attendee \<open>1\<close>.\<close>

theorem first_payment_transition_witness:
  "wellFormed exMem \<and> Map_get (studentMap exMem) 2 = Some bala \<and> s_paidStatus bala = Some not_paid \<and>
   list_all (\<lambda>c. c_studentId c \<noteq> Some 2) (Map_values (contributionMap exMem)) \<and>
   (let s1 = fst (createContribution 7 exMem
                    \<lparr> ic_studentId = Some 2, ic_amount = 250, ic_date = 20010, ic_recordedBy = Some 1 \<rparr>);
        s2 = fst (createContribution 8 s1
                    \<lparr> ic_studentId = Some 2, ic_amount = 100, ic_date = 20011, ic_recordedBy = Some 1 \<rparr>)
    in map_option s_paidStatus (Map_get (studentMap s1) 2) = Some (Some paid) \<and>
       map_option s_paidStatus (Map_get (studentMap s2) 2) = Some (Some paid)) \<and>
   db_wellFormed exDb \<and> db_getStudent exDb (Some 2) = Some bala \<and>
   list_all (\<lambda>c. c_studentId c \<noteq> Some 2) (contributions exDb) \<and>
   (let d1 = fst (db_createContribution 7 exDb
                    \<lparr> ic_studentId = Some 2, ic_amount = 250, ic_date = 20010, ic_recordedBy = Some 1 \<rparr>);
        d2 = fst (db_createContribution 8 d1
                    \<lparr> ic_studentId = Some 2, ic_amount = 100, ic_date = 20011, ic_recordedBy = Some 1 \<rparr>)
    in map_option s_paidStatus (db_getStudent d1 (Some 2)) = Some (Some paid) \<and>
       map_option s_paidStatus (db_getStudent d2 (Some 2)) = Some (Some paid))"
proof -
  have h1: "wellFormed exMem \<and> Map_get (studentMap exMem) 2 = Some bala \<and>
      s_paidStatus bala = Some not_paid \<and>
      (\<forall>c \<in> set (Map_values (contributionMap exMem)). c_studentId c \<noteq> Some 2)"
    by (simp add: wellFormed_def exMem_def asha_def bala_def gift500_def gift300_def)
  have h2: "db_wellFormed exDb \<and> db_getStudent exDb (Some 2) = Some bala \<and>
      (\<forall>c \<in> set (contributions exDb). c_studentId c \<noteq> Some 2)"
    by (simp add: db_wellFormed_def exDb_def asha_def bala_def gift500_def gift300_def)
  have h3: "list_all (\<lambda>c. c_studentId c \<noteq> Some 2) (Map_values (contributionMap exMem)) \<and>
      list_all (\<lambda>c. c_studentId c \<noteq> Some 2) (contributions exDb)"
    by (simp add: exMem_def exDb_def gift500_def gift300_def)
  show ?thesis
    using h1 h2 h3
      first_payment_transition [of exMem 2 bala
        "\<lparr> ic_studentId = Some 2, ic_amount = 250, ic_date = 20010, ic_recordedBy = Some 1 \<rparr>"
        "\<lparr> ic_studentId = Some 2, ic_amount = 100, ic_date = 20011, ic_recordedBy = Some 1 \<rparr>"
        7 8 exDb]
    by (simp add: Let_def del: map_option_eq_Some)
qed

section \<open>The floor on delete\<close>

text \<open>
  C6 (amended). Let contribution \<open>c\<close> exist and reference an existing attendee. In the
  in-memory store \<open>deleteContribution\<close> sets the attendee's \<open>contributionAmount\<close> to
  \<open>max(0, (current || 0) - c.amount)\<close>. In the durable store it does so when the current
  total is neither \<open>null\<close> nor \<open>0\<close>, and otherwise leaves the total as it is; in both
  stores the total read after the delete is not negative.
\<close>

theorem delete_floor_at_zero:
  "(wellFormed s \<and> Map_get (contributionMap s) k = Some c \<and> c_studentId c = Some a \<and>
    Map_get (studentMap s) a = Some st \<longrightarrow>
      map_option s_contributionAmount (Map_get (studentMap (fst (deleteContribution s k))) a) =
        Some (Some (max 0 (orZero (s_contributionAmount st) - c_amount c)))) \<and>
   (db_getContribution d k = Some c \<and> c_studentId c = Some a \<and> db_getStudent d (Some a) = Some st \<longrightarrow>
      map_option s_contributionAmount (db_getStudent (fst (db_deleteContribution d k)) (Some a)) =
        Some (if s_contributionAmount st = None \<or> s_contributionAmount st = Some 0
              then s_contributionAmount st
              else Some (max 0 (the (s_contributionAmount st) - c_amount c))) \<and>
      0 \<le> orZero (the (map_option s_contributionAmount
                          (db_getStudent (fst (db_deleteContribution d k)) (Some a)))))"
proof -
  have m: "map_option s_contributionAmount (Map_get (studentMap (fst (deleteContribution s k))) a) =
        Some (Some (max 0 (orZero (s_contributionAmount st) - c_amount c)))"
    if "wellFormed s" "Map_get (contributionMap s) k = Some c" "c_studentId c = Some a"
      "Map_get (studentMap s) a = Some st"
    using delete_student_after [OF that] by simp
  have b: "map_option s_contributionAmount (db_getStudent (fst (db_deleteContribution d k)) (Some a)) =
        Some (if s_contributionAmount st = None \<or> s_contributionAmount st = Some 0
              then s_contributionAmount st
              else Some (max 0 (the (s_contributionAmount st) - c_amount c)))"
    if "db_getContribution d k = Some c" "c_studentId c = Some a" "db_getStudent d (Some a) = Some st"
    using db_delete_student_after [OF that(1) that(2), of st] that(3) by simp
  have n: "0 \<le> orZero (the (map_option s_contributionAmount
                          (db_getStudent (fst (db_deleteContribution d k)) (Some a))))"
    if "db_getContribution d k = Some c" "c_studentId c = Some a" "db_getStudent d (Some a) = Some st"
    unfolding b [OF that] by (auto simp: orZero_def)
  show ?thesis
    using m b n by blast
qed

text \<open>The theorem at the example stores: deleting the contribution of \<open>300\<close> of attendee \<open>1\<close>.\<close>

theorem delete_floor_at_zero_witness:
  "wellFormed exMem \<and> Map_get (contributionMap exMem) 2 = Some gift300 \<and> c_studentId gift300 = Some 1 \<and>
   Map_get (studentMap exMem) 1 = Some asha \<and>
   map_option s_contributionAmount (Map_get (studentMap (fst (deleteContribution exMem 2))) 1) = Some (Some 500) \<and>
   db_getContribution exDb 2 = Some gift300 \<and> db_getStudent exDb (Some 1) = Some asha \<and>
   map_option s_contributionAmount (db_getStudent (fst (db_deleteContribution exDb 2)) (Some 1)) = Some (Some 500)"
proof -
  have h1: "wellFormed exMem"
    by (simp add: wellFormed_def exMem_def asha_def bala_def gift500_def gift300_def)
  have h2: "Map_get (contributionMap exMem) 2 = Some gift300 \<and> c_studentId gift300 = Some 1 \<and>
      Map_get (studentMap exMem) 1 = Some asha"
    by (simp add: exMem_def gift300_def)
  have h3: "db_getContribution exDb 2 = Some gift300 \<and> db_getStudent exDb (Some 1) = Some asha"
    by (simp add: db_getContribution_def exDb_def gift500_def gift300_def asha_def)
  have v: "max 0 (orZero (s_contributionAmount asha) - c_amount gift300) = 500"
    "s_contributionAmount asha = Some 800" "c_amount gift300 = 300"
    by (simp_all add: asha_def gift300_def orZero_def)
  show ?thesis
    using h1 h2 h3 delete_floor_at_zero [of exMem 2 gift300 1 asha exDb]
    by (simp add: v orZero_def)
qed

text \<open>
  The claim as stated fails in the durable store, which skips the write when the current
  total is \<open>0\<close> or \<open>null\<close>: with total \<open>0\<close> and a row of \<open>-5\<close> the total stays \<open>0\<close>, not
  \<open>max(0, 0 - (-5)) = 5\<close>; with total \<open>null\<close> and a row of \<open>200\<close> the total stays \<open>null\<close>,
  not \<open>0\<close>.
\<close>

theorem delete_floor_at_zero_counterexample:
  "db_getContribution exDbDrift 1 = Some refund5 \<and> c_studentId refund5 = Some 2 \<and>
   db_getStudent exDbDrift (Some 2) = Some bala \<and>
   max 0 (orZero (s_contributionAmount bala) - c_amount refund5) = 5 \<and>
   map_option s_contributionAmount (db_getStudent (fst (db_deleteContribution exDbDrift 1)) (Some 2)) =
     Some (Some 0) \<and>
   db_getContribution exDbDrift 2 = Some gift200 \<and> c_studentId gift200 = Some 3 \<and>
   db_getStudent exDbDrift (Some 3) = Some chitra \<and>
   max 0 (orZero (s_contributionAmount chitra) - c_amount gift200) = 0 \<and>
   map_option s_contributionAmount (db_getStudent (fst (db_deleteContribution exDbDrift 2)) (Some 3)) =
     Some None"
  by (simp add: db_getContribution_def db_deleteContribution_def Let_def orZero_def
        exDbDrift_def bala_def chitra_def refund5_def gift200_def)

section \<open>Contributions for a missing attendee\<close>

text \<open>
  C2 (amended). Let \<open>studentId\<close> reference no attendee. The in-memory \<open>createContribution\<close>
  still inserts the ledger row and returns it, and changes no attendee record. The durable
  \<open>createContribution\<close> does the same when \<open>studentId\<close> is \<open>null\<close>. When \<open>studentId\<close> is an
  id that no attendee has, the insert of the durable store is rejected for the foreign key:
  the method throws that fault, which is not a NotFound result, no ledger row is inserted
  and no attendee record changes.
\<close>

theorem create_for_missing_attendee:
  "(getStudent s (ic_studentId v) = None \<longrightarrow>
      snd (createContribution now s v) = newRow now (currentContributionId s) v \<and>
      Map_get (contributionMap (fst (createContribution now s v))) (currentContributionId s) =
        Some (newRow now (currentContributionId s) v) \<and>
      studentMap (fst (createContribution now s v)) = studentMap s) \<and>
   (ic_studentId v = None \<longrightarrow>
      snd (db_createContribution now d v) = Inr (newRow now (contributions_id_seq d) v) \<and>
      contributions (fst (db_createContribution now d v)) =
        contributions d @ [newRow now (contributions_id_seq d) v] \<and>
      students (fst (db_createContribution now d v)) = students d) \<and>
   (ic_studentId v \<noteq> None \<and> db_getStudent d (ic_studentId v) = None \<longrightarrow>
      snd (db_createContribution now d v) = Inl ForeignKeyViolation \<and>
      contributions (fst (db_createContribution now d v)) = contributions d \<and>
      students (fst (db_createContribution now d v)) = students d)"
proof -
  have m: "snd (createContribution now s v) = newRow now (currentContributionId s) v \<and>
      Map_get (contributionMap (fst (createContribution now s v))) (currentContributionId s) =
        Some (newRow now (currentContributionId s) v) \<and>
      studentMap (fst (createContribution now s v)) = studentMap s"
    if "getStudent s (ic_studentId v) = None"
    by (simp add: createContribution_absent [OF that] update_conv')
  have b: "snd (db_createContribution now d v) = Inr (newRow now (contributions_id_seq d) v) \<and>
      contributions (fst (db_createContribution now d v)) =
        contributions d @ [newRow now (contributions_id_seq d) v] \<and>
      students (fst (db_createContribution now d v)) = students d"
    if "ic_studentId v = None"
    by (simp add: db_createContribution_absent [OF that])
  have f: "snd (db_createContribution now d v) = Inl ForeignKeyViolation \<and>
      contributions (fst (db_createContribution now d v)) = contributions d \<and>
      students (fst (db_createContribution now d v)) = students d"
    if "ic_studentId v \<noteq> None" and "db_getStudent d (ic_studentId v) = None"
  proof -
    from that obtain a where a: "ic_studentId v = Some a" and "find (\<lambda>r. s_id r = a) (students d) = None"
      by (cases "ic_studentId v") auto
    then show ?thesis
      by (simp add: db_createContribution_dangling [OF a])
  qed
  show ?thesis
    using m b f by blast
qed

text \<open>
  The theorem at the example stores: a contribution without \<open>studentId\<close>, and one for the
  attendee id \<open>99\<close>, which the example stores do not hold.
\<close>

theorem create_for_missing_attendee_witness:
  "getStudent exMem None = None \<and>
   Map_get (contributionMap (fst (createContribution 5 exMem
       \<lparr> ic_studentId = None, ic_amount = 40, ic_date = 20003, ic_recordedBy = Some 1 \<rparr>))) 3 =
     Some \<lparr> c_id = 3, c_studentId = None, c_amount = 40, c_date = 20003,
            c_recordedBy = Some 1, c_createdAt = Some 5 \<rparr> \<and>
   snd (db_createContribution 5 exDb
       \<lparr> ic_studentId = None, ic_amount = 40, ic_date = 20003, ic_recordedBy = Some 1 \<rparr>) =
     Inr \<lparr> c_id = 3, c_studentId = None, c_amount = 40, c_date = 20003,
           c_recordedBy = Some 1, c_createdAt = Some 5 \<rparr> \<and>
   contributions (fst (db_createContribution 5 exDb
       \<lparr> ic_studentId = None, ic_amount = 40, ic_date = 20003, ic_recordedBy = Some 1 \<rparr>)) =
     [gift500, gift300,
      \<lparr> c_id = 3, c_studentId = None, c_amount = 40, c_date = 20003,
        c_recordedBy = Some 1, c_createdAt = Some 5 \<rparr>] \<and>
   db_getStudent exDb (Some 99) = None \<and>
   snd (db_createContribution 5 exDb
       \<lparr> ic_studentId = Some 99, ic_amount = 300, ic_date = 20002, ic_recordedBy = Some 1 \<rparr>) =
     Inl ForeignKeyViolation \<and>
   contributions (fst (db_createContribution 5 exDb
       \<lparr> ic_studentId = Some 99, ic_amount = 300, ic_date = 20002, ic_recordedBy = Some 1 \<rparr>)) =
     [gift500, gift300] \<and>
   students (fst (db_createContribution 5 exDb
       \<lparr> ic_studentId = Some 99, ic_amount = 300, ic_date = 20002, ic_recordedBy = Some 1 \<rparr>)) =
     [asha, bala]"
  using create_for_missing_attendee [of exMem
      "\<lparr> ic_studentId = None, ic_amount = 40, ic_date = 20003, ic_recordedBy = Some 1 \<rparr>" 5 exDb]
    create_for_missing_attendee [of exMem
      "\<lparr> ic_studentId = Some 99, ic_amount = 300, ic_date = 20002, ic_recordedBy = Some 1 \<rparr>" 5 exDb]
  by (simp add: newRow_def exMem_def exDb_def asha_def bala_def)

text \<open>
  The claim as stated fails: for the attendee id \<open>99\<close>, which the example store does not
  hold, the in-memory \<open>createContribution\<close> returns a Contribution record and the ledger
  holds one more row; and for a contribution without \<open>studentId\<close> the durable
  \<open>createContribution\<close> does the same.
\<close>

theorem create_for_missing_attendee_counterexample:
  "getStudent exMem (Some 99) = None \<and>
   snd (createContribution 5 exMem
          \<lparr> ic_studentId = Some 99, ic_amount = 300, ic_date = 20002, ic_recordedBy = Some 1 \<rparr>) =
     \<lparr> c_id = 3, c_studentId = Some 99, c_amount = 300, c_date = 20002,
       c_recordedBy = Some 1, c_createdAt = Some 5 \<rparr> \<and>
   contributionMap (fst (createContribution 5 exMem
          \<lparr> ic_studentId = Some 99, ic_amount = 300, ic_date = 20002, ic_recordedBy = Some 1 \<rparr>)) =
     [(1, gift500), (2, gift300),
      (3, \<lparr> c_id = 3, c_studentId = Some 99, c_amount = 300, c_date = 20002,
            c_recordedBy = Some 1, c_createdAt = Some 5 \<rparr>)] \<and>
   db_getStudent exDb None = None \<and>
   db_createContribution 5 exDb
       \<lparr> ic_studentId = None, ic_amount = 40, ic_date = 20003, ic_recordedBy = Some 1 \<rparr> =
     (exDb\<lparr> contributions_id_seq := 4,
            contributions := [gift500, gift300,
              \<lparr> c_id = 3, c_studentId = None, c_amount = 40, c_date = 20003,
                c_recordedBy = Some 1, c_createdAt = Some 5 \<rparr>] \<rparr>,
      Inr \<lparr> c_id = 3, c_studentId = None, c_amount = 40, c_date = 20003,
            c_recordedBy = Some 1, c_createdAt = Some 5 \<rparr>)"
  by (simp add: createContribution_def db_createContribution_def newRow_def exMem_def exDb_def Let_def)

section \<open>Listing contributions\<close>

text \<open>
  C4 (amended). \<open>getContributions\<close> filters by \<open>studentId\<close> first (a \<open>studentId\<close> that is absent
  or \<open>0\<close> selects every row) and paginates afterwards. The in-memory store paginates only
  when both \<open>limit\<close> and \<open>offset\<close> are present: for non-negative values the result is then
  the filtered list from \<open>offset\<close> on, cut to \<open>limit\<close> records; a \<open>limit\<close> without \<open>offset\<close>
  and an \<open>offset\<close> without \<open>limit\<close> are both ignored. The durable store orders the filtered
  rows by date, descending, and paginates when \<open>limit\<close> is positive: the result is then cut
  to \<open>limit\<close> records, from \<open>offset\<close> on when one is given; without \<open>limit\<close>, or with
  \<open>limit = 0\<close>, every filtered row is returned and \<open>offset\<close> is ignored.
\<close>

theorem pagination_after_filter:
  "(o_limit opts = None \<or> o_offset opts = None \<longrightarrow>
      getContributions s opts = filterByAttendee (o_studentId opts) (Map_values (contributionMap s))) \<and>
   (\<forall>limit offset. o_limit opts = Some limit \<and> o_offset opts = Some offset \<and> 0 \<le> limit \<and> 0 \<le> offset \<longrightarrow>
      getContributions s opts =
        take (nat limit) (drop (nat offset)
          (filterByAttendee (o_studentId opts) (Map_values (contributionMap s)))) \<and>
      int (length (getContributions s opts)) \<le> limit) \<and>
   (o_limit opts = None \<or> o_limit opts = Some 0 \<longrightarrow>
      db_getContributions d opts =
        Inr (sort_key (\<lambda>c. - c_date c) (filterByAttendee (o_studentId opts) (contributions d)))) \<and>
   (\<forall>limit. o_limit opts = Some limit \<and> 0 < limit \<and> 0 \<le> orZero (o_offset opts) \<longrightarrow>
      db_getContributions d opts =
        Inr (take (nat limit) (drop (nat (orZero (o_offset opts)))
          (sort_key (\<lambda>c. - c_date c) (filterByAttendee (o_studentId opts) (contributions d))))) \<and>
      (\<forall>rows. db_getContributions d opts = Inr rows \<longrightarrow> int (length rows) \<le> limit))"
  by (auto simp add: getContributions_def db_getContributions_def filterByAttendee_def Let_def
        slice_take_drop orZero_def split: option.splits)

text \<open>The theorem at the example stores, for the second page of size one of attendee \<open>1\<close>.\<close>

theorem pagination_after_filter_witness:
  "getContributions exMem \<lparr> o_studentId = Some 1, o_limit = Some 1, o_offset = Some 1 \<rparr> = [gift300] \<and>
   getContributions exMem \<lparr> o_studentId = Some 1, o_limit = None, o_offset = Some 1 \<rparr> = [gift500, gift300] \<and>
   db_getContributions exDb \<lparr> o_studentId = Some 1, o_limit = Some 1, o_offset = Some 1 \<rparr> = Inr [gift500] \<and>
   db_getContributions exDb \<lparr> o_studentId = Some 1, o_limit = None, o_offset = Some 1 \<rparr> =
     Inr [gift300, gift500]"
  using
    pagination_after_filter [of "\<lparr> o_studentId = Some 1, o_limit = Some 1, o_offset = Some 1 \<rparr>" exMem exDb]
    pagination_after_filter [of "\<lparr> o_studentId = Some 1, o_limit = None, o_offset = Some 1 \<rparr>" exMem exDb]
  by (simp add: filterByAttendee_def orZero_def exMem_def exDb_def gift500_def gift300_def)

text \<open>
  The claim as stated fails: in the in-memory store a \<open>limit\<close> of \<open>1\<close> without \<open>offset\<close>
  returns both rows; in the durable store a \<open>limit\<close> of \<open>0\<close> returns both rows; and a
  \<open>studentId\<close> of \<open>0\<close>, which no row references, returns both rows.
\<close>

theorem pagination_after_filter_counterexample:
  "getContributions exMem \<lparr> o_studentId = None, o_limit = Some 1, o_offset = None \<rparr> = [gift500, gift300] \<and>
   db_getContributions exDb \<lparr> o_studentId = None, o_limit = Some 0, o_offset = None \<rparr> = Inr [gift300, gift500] \<and>
   getContributions exMem \<lparr> o_studentId = Some 0, o_limit = None, o_offset = None \<rparr> = [gift500, gift300] \<and>
   filter (\<lambda>c. c_studentId c = Some 0) [gift500, gift300] = []"
  by (simp add: getContributions_def db_getContributions_def exMem_def exDb_def Let_def gift500_def gift300_def)

section \<open>Budget utilization\<close>

text \<open>
  C7 (amended). The durable dashboard summary has \<open>budgetUtilization = 0\<close> when
  \<open>totalBudget\<close>, the sum of the estimated amounts of the budget items, is not positive.
  Otherwise it is \<open>Math.round((totalExpenses / totalBudget) * 100)\<close> as evaluated on binary64
  numbers: for a budget below \<open>2 ^ 53\<close> and expenses up to \<open>2 ^ 43\<close> in magnitude this is
  the exact value \<open>100 * totalExpenses / totalBudget\<close> rounded to the nearest integer, unless
  the exact value lies halfway between two integers, where the result is one of the two. The
  in-memory summary divides by the attendees' contributions instead, whatever the budget is:
  the same holds of it with \<open>totalContributions || 1\<close> in the place of \<open>totalBudget\<close>.
\<close>

theorem budget_utilization:
  "(let totalExpenses = sum_list (map e_amount (expenses d));
        totalBudget = sum_list (map b_estimatedAmount (budgetItems d));
        exact = 100 * rat_of_int totalExpenses / rat_of_int totalBudget;
        budgetUtilization = ds_budgetUtilization (db_getDashboardSummary reunionDate today d)
    in (totalBudget \<le> 0 \<longrightarrow> budgetUtilization = 0) \<and>
       (0 < totalBudget \<and> totalBudget < 2 ^ 53 \<and> \<bar>totalExpenses\<bar> \<le> 2 ^ 43 \<longrightarrow>
          (frac exact \<noteq> 1 / 2 \<longrightarrow> budgetUtilization = Math_round exact) \<and>
          (budgetUtilization = Math_round exact \<or> budgetUtilization = Math_round exact - 1))) \<and>
   (let totalExpenses = sum_list (map e_amount (Map_values (expenseMap s)));
        totalContributions =
          sum_list (map (\<lambda>st. orZero (s_contributionAmount st)) (Map_values (studentMap s)));
        divisor = (if totalContributions = 0 then 1 else totalContributions);
        exact = 100 * rat_of_int totalExpenses / rat_of_int divisor;
        budgetUtilization = ds_budgetUtilization (getDashboardSummary reunionDate today s)
    in \<bar>divisor\<bar> < 2 ^ 53 \<and> \<bar>totalExpenses\<bar> \<le> 2 ^ 43 \<longrightarrow>
         (frac exact \<noteq> 1 / 2 \<longrightarrow> budgetUtilization = Math_round exact) \<and>
         (budgetUtilization = Math_round exact \<or> budgetUtilization = Math_round exact - 1))"
proof -
  define e where "e = sum_list (map e_amount (expenses d))"
  define b where "b = sum_list (map b_estimatedAmount (budgetItems d))"
  define e' where "e' = sum_list (map e_amount (Map_values (expenseMap s)))"
  define c where "c = sum_list (map (\<lambda>st. orZero (s_contributionAmount st)) (Map_values (studentMap s)))"
  define c' where "c' = (if c = 0 then 1 else c)"
  have durable: "ds_budgetUtilization (db_getDashboardSummary reunionDate today d) =
      (if b > 0 then Math_round (fmul (fdiv (ToNumber e) (ToNumber b)) 100) else 0)"
    by (simp add: db_getDashboardSummary_def Let_def e_def b_def)
  have memory: "ds_budgetUtilization (getDashboardSummary reunionDate today s) =
      Math_round (fmul (fdiv (of_int e') (of_int c')) 100)"
    by (simp add: getDashboardSummary_def Let_def foldl_add_sum getStudents_def getExpenses_def
          e'_def c_def c'_def)
  have zero: "ds_budgetUtilization (db_getDashboardSummary reunionDate today d) = 0" if "b \<le> 0"
    using that by (simp add: durable)
  have d1: "ds_budgetUtilization (db_getDashboardSummary reunionDate today d) =
        Math_round (100 * of_int e / of_int b)"
    if "0 < b" "b < 2 ^ 53" "\<bar>e\<bar> \<le> 2 ^ 43" "frac (100 * rat_of_int e / rat_of_int b) \<noteq> 1 / 2"
  proof -
    from that have n: "ToNumber e = of_int e" "ToNumber b = of_int b"
      by (simp_all add: ToNumber_def toDouble_of_int)
    from that round_percent(1) [of e b] show ?thesis
      by (simp add: durable n)
  qed
  have d2: "ds_budgetUtilization (db_getDashboardSummary reunionDate today d) =
        Math_round (100 * of_int e / of_int b) \<or>
      ds_budgetUtilization (db_getDashboardSummary reunionDate today d) =
        Math_round (100 * of_int e / of_int b) - 1"
    if "0 < b" "b < 2 ^ 53" "\<bar>e\<bar> \<le> 2 ^ 43"
  proof -
    from that have n: "ToNumber e = of_int e" "ToNumber b = of_int b"
      by (simp_all add: ToNumber_def toDouble_of_int)
    from that round_percent(2) [of e b] show ?thesis
      by (simp add: durable n)
  qed
  have c0: "c' \<noteq> 0"
    by (simp add: c'_def)
  have m1: "ds_budgetUtilization (getDashboardSummary reunionDate today s) =
        Math_round (100 * of_int e' / of_int c')"
    if "\<bar>c'\<bar> < 2 ^ 53" "\<bar>e'\<bar> \<le> 2 ^ 43" "frac (100 * rat_of_int e' / rat_of_int c') \<noteq> 1 / 2"
    using that c0 round_percent(1) [of e' c'] by (simp add: memory)
  have m2: "ds_budgetUtilization (getDashboardSummary reunionDate today s) =
        Math_round (100 * of_int e' / of_int c') \<or>
      ds_budgetUtilization (getDashboardSummary reunionDate today s) =
        Math_round (100 * of_int e' / of_int c') - 1"
    if "\<bar>c'\<bar> < 2 ^ 53" "\<bar>e'\<bar> \<le> 2 ^ 43"
    using that c0 round_percent(2) [of e' c'] by (simp add: memory)
  show ?thesis
    unfolding Let_def e_def [symmetric] b_def [symmetric] e'_def [symmetric] c_def [symmetric]
      c'_def [symmetric]
    using zero d1 d2 m1 m2 by blast
qed

text \<open>
  The theorem at the example stores: expenses \<open>50\<close>, budget \<open>200\<close>, contributions \<open>800\<close>,
  with the exact values \<open>25\<close> and \<open>6.25\<close>. In the stores with the exact value \<open>57.5\<close> the
  quotient \<open>23 / 40\<close> is rounded down to binary64, its product with \<open>100\<close> is the number
  below \<open>57.5\<close>, and both summaries report \<open>57\<close>, where rounding the exact value gives \<open>58\<close>.
\<close>

theorem budget_utilization_witness:
  "ds_budgetUtilization (db_getDashboardSummary 1743877800000 1730000000000 exDb) = 25 \<and>
   ds_budgetUtilization (getDashboardSummary 1743877800000 1730000000000 exMem) = 6 \<and>
   frac (100 * 23 / 40 :: rat) = 1 / 2 \<and> Math_round (100 * 23 / 40) = 58 \<and>
   fdiv (ToNumber 23) (ToNumber 40) = 2589569785738035 / 4503599627370496 \<and>
   fmul (2589569785738035 / 4503599627370496) 100 = 8092405580431359 / 140737488355328 \<and>
   ds_budgetUtilization (db_getDashboardSummary 1743877800000 1730000000000 exDbHalf) = 57 \<and>
   ds_budgetUtilization (getDashboardSummary 1743877800000 1730000000000 exMemHalf) = 57"
proof -
  have sums: "sum_list (map e_amount (expenses exDb)) = 50"
    "sum_list (map b_estimatedAmount (budgetItems exDb)) = 200"
    "sum_list (map e_amount (Map_values (expenseMap exMem))) = 50"
    "sum_list (map (\<lambda>st. orZero (s_contributionAmount st)) (Map_values (studentMap exMem))) = 800"
    by (simp_all add: exDb_def exMem_def deposit_def hall_def asha_def bala_def orZero_def)
  have fl: "\<lfloor>25 / 4 :: rat\<rfloor> = 6" "\<lfloor>27 / 4 :: rat\<rfloor> = 6" "\<lfloor>115 / 2 :: rat\<rfloor> = 57"
    "\<lfloor>51 / 2 :: rat\<rfloor> = 25"
    by (simp_all add: floor_numeral_quotient)
  have a: "ds_budgetUtilization (db_getDashboardSummary 1743877800000 1730000000000 exDb) = 25"
    "ds_budgetUtilization (getDashboardSummary 1743877800000 1730000000000 exMem) = 6"
    using budget_utilization [of exDb 1743877800000 1730000000000 exMem]
    by (simp_all add: sums Let_def frac_def Math_round_def fl del: map_map)
  have q: "fdiv (ToNumber 23) (ToNumber 40) = 2589569785738035 / 4503599627370496"
    "fdiv 23 40 = 2589569785738035 / 4503599627370496"
    "fmul (2589569785738035 / 4503599627370496) 100 = 8092405580431359 / 140737488355328"
    "Math_round (8092405580431359 / 140737488355328) = 57"
    by code_simp+
  have h: "ds_budgetUtilization (db_getDashboardSummary 1743877800000 1730000000000 exDbHalf) =
        Math_round (fmul (fdiv (ToNumber 23) (ToNumber 40)) 100)"
    "ds_budgetUtilization (getDashboardSummary 1743877800000 1730000000000 exMemHalf) =
        Math_round (fmul (fdiv 23 40) 100)"
    by (simp_all add: db_getDashboardSummary_def getDashboardSummary_def Let_def getStudents_def
          getExpenses_def exDbHalf_def exMemHalf_def lights_def stage_def esha_def orZero_def)
  show ?thesis
    by (simp add: a h q) (simp add: frac_def Math_round_def fl)
qed

text \<open>
  The claim as stated fails for the in-memory summary: with expenses \<open>50\<close> and a budget of
  \<open>200\<close> it reports \<open>6\<close>, not \<open>round(50 / 200 * 100) = 25\<close>.
\<close>

theorem budget_utilization_counterexample:
  "sum_list (map e_amount (Map_values (expenseMap exMem))) = 50 \<and>
   sum_list (map b_estimatedAmount (Map_values (budgetItemMap exMem))) = 200 \<and>
   Math_round (fmul (fdiv 50 200) 100) = 25 \<and>
   ds_budgetUtilization (getDashboardSummary 1743877800000 1730000000000 exMem) = 6"
proof -
  have v: "Math_round (fmul (fdiv 50 200) 100) = 25" "Math_round (fmul (fdiv 50 800) 100) = 6"
    by code_simp+
  have "ds_budgetUtilization (getDashboardSummary 1743877800000 1730000000000 exMem) =
      Math_round (fmul (fdiv 50 800) 100)"
    by (simp add: getDashboardSummary_def Let_def getStudents_def getExpenses_def exMem_def
          asha_def bala_def deposit_def orZero_def)
  then show ?thesis
    by (simp add: v exMem_def deposit_def hall_def)
qed

section \<open>The category breakdown\<close>

text \<open>
  C8. In both stores the \<open>categoryBreakdown\<close> of \<open>getBudgetSummary\<close> has one entry for each of
  the nine fixed categories, in their fixed order; its \<open>estimatedAmount\<close> is the sum of
  \<open>estimatedAmount\<close> over the budget items of the category and its \<open>actualAmount\<close> the sum of
  \<open>amount\<close> over the expenses of the category. Rows of any other category contribute to no
  entry: removing them from the store leaves the breakdown as it is.
\<close>

theorem category_breakdown:
  "bs_categoryBreakdown (getBudgetSummary s) =
     map (\<lambda>category.
        \<lparr> cb_category = category,
          cb_estimatedAmount = sum_list (map b_estimatedAmount
             (filter (\<lambda>item. b_category item = category) (Map_values (budgetItemMap s)))),
          cb_actualAmount = sum_list (map e_amount
             (filter (\<lambda>expense. e_category expense = category) (Map_values (expenseMap s)))) \<rparr>)
       [''venue'', ''food'', ''entertainment'', ''decoration'', ''transportation'',
        ''gifts'', ''technology'', ''marketing'', ''miscellaneous''] \<and>
   bs_categoryBreakdown (db_getBudgetSummary d) =
     map (\<lambda>category.
        \<lparr> cb_category = category,
          cb_estimatedAmount = sum_list (map b_estimatedAmount
             (filter (\<lambda>item. b_category item = category) (budgetItems d))),
          cb_actualAmount = sum_list (map e_amount
             (filter (\<lambda>expense. e_category expense = category) (expenses d))) \<rparr>)
       [''venue'', ''food'', ''entertainment'', ''decoration'', ''transportation'',
        ''gifts'', ''technology'', ''marketing'', ''miscellaneous''] \<and>
   bs_categoryBreakdown (getBudgetSummary
       (s\<lparr> budgetItemMap := filter (\<lambda>p. b_category (snd p) \<in> set categories) (budgetItemMap s),
           expenseMap := filter (\<lambda>p. e_category (snd p) \<in> set categories) (expenseMap s) \<rparr>)) =
     bs_categoryBreakdown (getBudgetSummary s) \<and>
   bs_categoryBreakdown (db_getBudgetSummary
       (d\<lparr> budgetItems := filter (\<lambda>r. b_category r \<in> set categories) (budgetItems d),
           expenses := filter (\<lambda>r. e_category r \<in> set categories) (expenses d) \<rparr>)) =
     bs_categoryBreakdown (db_getBudgetSummary d)"
proof -
  have f: "c \<in> set categories \<Longrightarrow>
        filter (\<lambda>x. g x \<in> set categories \<and> g x = c) xs = filter (\<lambda>x. g x = c) xs"
    for c :: string and g :: "'a \<Rightarrow> string" and xs
    by (induction xs) auto
  have g: "c \<in> set categories \<Longrightarrow>
        filter (\<lambda>x. g x = c) (map snd (filter (\<lambda>p. g (snd p) \<in> set categories) xs)) =
          filter (\<lambda>x. g x = c) (map snd xs)"
    for c :: string and g :: "'a \<Rightarrow> string" and xs :: "(int \<times> 'a) list"
    by (induction xs) auto
  have l: "[''venue'', ''food'', ''entertainment'', ''decoration'', ''transportation'',
        ''gifts'', ''technology'', ''marketing'', ''miscellaneous''] = categories"
    by (simp add: categories_def)
  show ?thesis
    unfolding l mem_breakdown db_breakdown
    by (simp add: f g)
qed

text \<open>
  The theorem at the example stores: the entry for \<open>venue\<close> (one budget item of \<open>200\<close>, one
  expense of \<open>50\<close>) and the entry for \<open>food\<close> (no rows).
\<close>

theorem category_breakdown_witness:
  "bs_categoryBreakdown (getBudgetSummary exMem) ! 0 =
     \<lparr> cb_category = ''venue'', cb_estimatedAmount = 200, cb_actualAmount = 50 \<rparr> \<and>
   bs_categoryBreakdown (db_getBudgetSummary exDb) ! 1 =
     \<lparr> cb_category = ''food'', cb_estimatedAmount = 0, cb_actualAmount = 0 \<rparr>"
  using category_breakdown [of exMem exDb]
  by (simp add: exMem_def exDb_def hall_def deposit_def)

section \<open>Deleting an attendee\<close>

text \<open>
  C10. \<open>deleteStudent\<close> removes at most the one attendee record of the given id and leaves the
  contribution ledger as it is. The in-memory store removes the attendee whatever references
  it, so the ledger rows that reference the deleted attendee stay. The durable store does
  not delete an attendee that a ledger row or a user references: the delete is rejected for
  the foreign key, the method throws and the store is what it was, so that no ledger row of
  the durable store loses its attendee; an attendee that nothing references is removed. In
  both outcomes the ledger is unchanged, and with it the \<open>totalContributions\<close> of the
  durable dashboard, which is the sum over the ledger.
\<close>

theorem delete_student_keeps_ledger:
  "contributionMap (fst (deleteStudent s k)) = contributionMap s \<and>
   studentMap (fst (deleteStudent s k)) = filter (\<lambda>p. fst p \<noteq> k) (studentMap s) \<and>
   (distinct (map fst (studentMap s)) \<longrightarrow>
      length (studentMap s) \<le> length (studentMap (fst (deleteStudent s k))) + 1) \<and>
   contributions (fst (db_deleteStudent d k)) = contributions d \<and>
   (referenced d k \<longrightarrow> db_deleteStudent d k = (d, Inl ForeignKeyViolation)) \<and>
   (\<not> referenced d k \<longrightarrow>
      students (fst (db_deleteStudent d k)) = filter (\<lambda>r. s_id r \<noteq> k) (students d) \<and>
      snd (db_deleteStudent d k) = Inr True) \<and>
   (Some k \<in> c_studentId ` set (contributions d) \<or> Some k \<in> u_studentId ` set (users d) \<longrightarrow>
      students (fst (db_deleteStudent d k)) = students d) \<and>
   (distinct (map s_id (students d)) \<longrightarrow>
      length (students d) \<le> length (students (fst (db_deleteStudent d k))) + 1) \<and>
   ds_totalContributions (db_getDashboardSummary reunionDate today d) =
     sum_list (map c_amount (contributions d)) \<and>
   ds_totalContributions (db_getDashboardSummary reunionDate today (fst (db_deleteStudent d k))) =
     ds_totalContributions (db_getDashboardSummary reunionDate today d)"
proof -
  have a: "distinct (map f xs) \<Longrightarrow> length xs \<le> length (filter (\<lambda>x. f x \<noteq> k) xs) + 1"
    for f :: "'a \<Rightarrow> int" and xs
  proof (induction xs)
    case Nil
    then show ?case by simp
  next
    case (Cons x xs)
    show ?case
    proof (cases "f x = k")
      case True
      from Cons.prems have "f x \<notin> f ` set xs"
        by simp
      with True have "\<forall>y \<in> set xs. f y \<noteq> k"
        by (metis image_eqI)
      then have "filter (\<lambda>x. f x \<noteq> k) xs = xs"
        by (simp add: filter_id_conv)
      with True show ?thesis by simp
    next
      case False
      with Cons show ?thesis by simp
    qed
  qed
  have b: "Map_delete al k = filter (\<lambda>p. fst p \<noteq> k) al" for al :: "(int \<times> student) list"
    by (induction al) auto
  have c: "students (fst (db_deleteStudent d k)) = students d"
    if "Some k \<in> c_studentId ` set (contributions d) \<or> Some k \<in> u_studentId ` set (users d)"
  proof (cases "k \<in> s_id ` set (students d)")
    case True
    with that have "referenced d k"
      by (simp add: referenced_def)
    then show ?thesis
      by (simp add: db_deleteStudent_def)
  next
    case False
    then have "filter (\<lambda>r. s_id r \<noteq> k) (students d) = students d"
      by (auto simp: filter_id_conv)
    with False show ?thesis
      by (simp add: db_deleteStudent_def referenced_def)
  qed
  show ?thesis
    using a [of fst "studentMap s"] a [of s_id "students d"] c
    by (simp add: deleteStudent_def db_deleteStudent_def b db_getDashboardSummary_def Let_def)
qed

text \<open>
  The theorem at the example stores: both ledger rows reference attendee \<open>1\<close>, nothing
  references attendee \<open>2\<close>, and in the store with a login a user references attendee \<open>2\<close>.
\<close>

theorem delete_student_keeps_ledger_witness:
  "distinct (map fst (studentMap exMem)) \<and>
   contributionMap (fst (deleteStudent exMem 1)) = [(1, gift500), (2, gift300)] \<and>
   studentMap (fst (deleteStudent exMem 1)) = [(2, bala)] \<and>
   distinct (map s_id (students exDb)) \<and>
   referenced exDb 1 \<and> db_deleteStudent exDb 1 = (exDb, Inl ForeignKeyViolation) \<and>
   \<not> referenced exDb 2 \<and> students (fst (db_deleteStudent exDb 2)) = [asha] \<and>
   contributions (fst (db_deleteStudent exDb 2)) = [gift500, gift300] \<and>
   snd (db_deleteStudent exDb 2) = Inr True \<and>
   referenced exDbLogin 2 \<and> db_deleteStudent exDbLogin 2 = (exDbLogin, Inl ForeignKeyViolation) \<and>
   ds_totalContributions (db_getDashboardSummary 1743877800000 1730000000000
       (fst (db_deleteStudent exDb 2))) = 800"
proof -
  have r: "referenced exDb 1" "\<not> referenced exDb 2" "referenced exDbLogin 2"
    by (simp_all add: referenced_def exDbLogin_def exDb_def asha_def bala_def gift500_def gift300_def
          admin_def balaLogin_def)
  note t = delete_student_keeps_ledger
    [where s = exMem and reunionDate = 1743877800000 and today = 1730000000000]
  have m: "contributionMap (fst (deleteStudent exMem 1)) = contributionMap exMem"
    "studentMap (fst (deleteStudent exMem 1)) = filter (\<lambda>p. fst p \<noteq> 1) (studentMap exMem)"
    using t [of 1 exDb] by blast+
  have d1: "db_deleteStudent exDb 1 = (exDb, Inl ForeignKeyViolation)"
    using r(1) t [of 1 exDb] by blast
  have d2: "students (fst (db_deleteStudent exDb 2)) = filter (\<lambda>r. s_id r \<noteq> 2) (students exDb)"
    "snd (db_deleteStudent exDb 2) = Inr True"
    "contributions (fst (db_deleteStudent exDb 2)) = contributions exDb"
    "ds_totalContributions (db_getDashboardSummary 1743877800000 1730000000000
       (fst (db_deleteStudent exDb 2))) = sum_list (map c_amount (contributions exDb))"
    using r(2) t [of 2 exDb] by simp_all
  have d3: "db_deleteStudent exDbLogin 2 = (exDbLogin, Inl ForeignKeyViolation)"
    using r(3) t [of 2 exDbLogin] by blast
  show ?thesis
    using r by (simp add: m d1 d2 d3) (simp add: exMem_def exDb_def asha_def bala_def gift500_def gift300_def)
qed

section \<open>Bulk import\<close>



end
